theory Spec2Isabelle
  imports Main "HOL-Library.Char_ord" "HOL-Library.List_Lexorder"
begin

section \<open>flarelog: a colourising slog handler\<close>

text \<open>
  The development follows \<^verbatim>\<open>flarelog/main.go\<close>. The handler wraps a delegate
  \<^verbatim>\<open>slog.Handler\<close> that encodes each record into a private buffer, decodes the
  buffer into a generic attribute mapping, and writes a styled line to the console and a
  plain line to a log file.

  The functions of the package (\<open>colorize\<close>, \<open>Enabled\<close>, \<open>WithAttrs\<close>, \<open>WithGroup\<close>,
  \<open>computeAttrs\<close>, \<open>Handle\<close>, \<open>suppressDefaults\<close>, \<open>NewHandler\<close>, \<open>openLogFile\<close>) are
  translated from the source. What they call in Go's standard library is modelled after
  the library: the values, attributes, levels and the JSON handler of \<^verbatim>\<open>log/slog\<close>, and
  \<^verbatim>\<open>json.Unmarshal\<close> and \<^verbatim>\<open>json.MarshalIndent\<close> on JSON documents taken as trees.
\<close>

subsection \<open>Decimal rendering (\<^verbatim>\<open>strconv.Itoa\<close>)\<close>

definition digit_char :: "nat \<Rightarrow> char" where
  "digit_char d = char_of (48 + d)"

fun nat_digits :: "nat \<Rightarrow> string" where
  "nat_digits n = (if n < 10 then [digit_char n] else nat_digits (n div 10) @ [digit_char (n mod 10)])"

declare nat_digits.simps [simp del]

definition Itoa :: "int \<Rightarrow> string" where
  "Itoa i = (if i < 0 then CHR ''-'' # nat_digits (nat (- i)) else nat_digits (nat i))"

subsection \<open>Colour constants and \<^verbatim>\<open>colorize\<close>\<close>

definition reset :: string where
  "reset = CHR 0x1B # ''[0m''"

definition black :: int where "black = 30"
definition red :: int where "red = 31"
definition green :: int where "green = 32"
definition yellow :: int where "yellow = 33"
definition blue :: int where "blue = 34"
definition magenta :: int where "magenta = 35"
definition cyan :: int where "cyan = 36"
definition lightGray :: int where "lightGray = 37"
definition darkGray :: int where "darkGray = 90"
definition lightRed :: int where "lightRed = 91"
definition lightGreen :: int where "lightGreen = 92"
definition lightYellow :: int where "lightYellow = 93"
definition lightBlue :: int where "lightBlue = 94"
definition lightMagenta :: int where "lightMagenta = 95"
definition lightCyan :: int where "lightCyan = 96"
definition white :: int where "white = 97"

text \<open>\<^verbatim>\<open>fmt.Sprintf("\033[%sm%s%s", strconv.Itoa(colorCode), v, reset)\<close>\<close>

definition colorize :: "int \<Rightarrow> string \<Rightarrow> string" where
  "colorize colorCode v = CHR 0x1B # ''['' @ Itoa colorCode @ ''m'' @ v @ reset"

subsection \<open>Levels\<close>

text \<open>
  \<^verbatim>\<open>slog.Level\<close> is an integer; the four named levels are the constants of the
  standard library. All comparisons of the handler are against constants, so the values
  are modelled as integers.
\<close>

type_synonym level = int

definition LevelDebug :: level where "LevelDebug = - 4"
definition LevelInfo :: level where "LevelInfo = 0"
definition LevelWarn :: level where "LevelWarn = 4"
definition LevelError :: level where "LevelError = 8"

text \<open>
  Lines 102 to 114 of \<^verbatim>\<open>Handle\<close>: the chain of comparisons that colours the level
  text. The chain has no final \<^verbatim>\<open>else\<close>: where no branch applies the text is left
  as it is.
\<close>

definition styleLevel :: "level \<Rightarrow> string \<Rightarrow> string" where
  "styleLevel l s =
     (if l \<le> LevelDebug then colorize lightGray s
      else if l \<le> LevelInfo then colorize cyan s
      else if l < LevelWarn then colorize lightBlue s
      else if l < LevelError then colorize yellow s
      else if l \<le> LevelError + 1 then colorize lightRed s
      else if l > LevelError + 1 then colorize lightMagenta s
      else s)"

subsection \<open>The data model of \<^verbatim>\<open>log/slog\<close>\<close>

text \<open>
  A \<^verbatim>\<open>time.Time\<close> is represented by the observations made of it: whether it is the
  zero time, its rendering under the layout \<^verbatim>\<open>timeFormat = "[15:04:05.000]"\<close>, its
  RFC 3339 rendering (used by the JSON encoder) and its default rendering.
\<close>

record gotime =
  IsZero :: bool
  Format_timeFormat :: string
  Format_RFC3339 :: string
  Time_String :: string

record source =
  Function :: string
  File :: string
  Line :: int

text \<open>
  A \<^verbatim>\<open>slog.Value\<close> with the kinds the handler can meet: \<open>VNil\<close> is the zero value
  (kind Any holding \<^verbatim>\<open>nil\<close>), \<open>VLevel\<close> is \<^verbatim>\<open>slog.AnyValue\<close> of a level, \<open>VSource\<close> is
  the source location built by the JSON handler, \<open>VGroup\<close> is a group of attributes.
  Floating point numbers, durations and values of arbitrary Go types are left out.
\<close>

datatype val =
    VNil
  | VString string
  | VInt int
  | VBool bool
  | VLevel level
  | VTime gotime
  | VSource source
  | VGroup "attr list"
and attr = Attr (Key: string) (Value: val)

text \<open>The zero attribute \<^verbatim>\<open>slog.Attr{}\<close>: the sentinel for a dropped attribute.\<close>

definition Attr_zero :: attr where
  "Attr_zero = Attr [] VNil"

text \<open>
  \<^verbatim>\<open>Attr.Equal\<close> compares the keys and the values; on the kinds above the comparison of
  values is structural.
\<close>

definition Attr_Equal :: "attr \<Rightarrow> attr \<Rightarrow> bool" where
  "Attr_Equal a b \<longleftrightarrow> Key a = Key b \<and> Value a = Value b"

definition TimeKey :: string where "TimeKey = ''time''"
definition LevelKey :: string where "LevelKey = ''level''"
definition MessageKey :: string where "MessageKey = ''msg''"
definition SourceKey :: string where "SourceKey = ''source''"

text \<open>
  \<^verbatim>\<open>Level.String\<close>: the name of the band the level lies in, followed by the signed offset
  from the band's base when that is not zero (\<^verbatim>\<open>fmt.Sprintf("%s%+d", base, val)\<close>).
\<close>

definition level_str :: "string \<Rightarrow> int \<Rightarrow> string" where
  "level_str base v =
     (if v = 0 then base else base @ (if 0 < v then ''+'' else []) @ Itoa v)"

definition Level_String :: "level \<Rightarrow> string" where
  "Level_String l =
     (if l < LevelInfo then level_str ''DEBUG'' (l - LevelDebug)
      else if l < LevelWarn then level_str ''INFO'' (l - LevelInfo)
      else if l < LevelError then level_str ''WARN'' (l - LevelWarn)
      else level_str ''ERROR'' (l - LevelError))"

text \<open>
  \<^verbatim>\<open>Value.String\<close>. A string value is itself; the zero value prints as \<^verbatim>\<open><nil>\<close>
  (\<^verbatim>\<open>fmt.Sprint(nil)\<close>); a group prints as the list of its \<^verbatim>\<open>key=value\<close> members.
\<close>

fun Value_String :: "val \<Rightarrow> string"
  and Attr_String :: "attr \<Rightarrow> string"
  and Attrs_String :: "attr list \<Rightarrow> string" where
  "Value_String VNil = ''<nil>''"
| "Value_String (VString s) = s"
| "Value_String (VInt i) = Itoa i"
| "Value_String (VBool b) = (if b then ''true'' else ''false'')"
| "Value_String (VLevel l) = Level_String l"
| "Value_String (VTime t) = Time_String t"
| "Value_String (VSource s) =
     ''&{'' @ Function s @ '' '' @ File s @ '' '' @ Itoa (Line s) @ ''}''"
| "Value_String (VGroup as) = ''['' @ Attrs_String as @ '']''"
| "Attr_String (Attr k v) = k @ ''='' @ Value_String v"
| "Attrs_String [] = []"
| "Attrs_String [a] = Attr_String a"
| "Attrs_String (a # b # as) = Attr_String a @ '' '' @ Attrs_String (b # as)"

text \<open>A \<^verbatim>\<open>slog.Record\<close>; the source location stands for what \<^verbatim>\<open>r.PC\<close> resolves to.\<close>

record slog_record =
  Time :: gotime
  Message :: string
  Level :: level
  Source :: source
  Attrs :: "attr list"

text \<open>
  A rewrite hook \<^verbatim>\<open>func([]string, slog.Attr) slog.Attr\<close>; a \<^verbatim>\<open>nil\<close> hook is
  \<open>None\<close>.
\<close>

type_synonym hook = "string list \<Rightarrow> attr \<Rightarrow> attr"

record HandlerOptions =
  AddSource :: bool
  MinLevel :: "level option"
  ReplaceAttr :: "hook option"

definition HandlerOptions_zero :: HandlerOptions where
  "HandlerOptions_zero = \<lparr>AddSource = False, MinLevel = None, ReplaceAttr = None\<rparr>"

subsection \<open>Errors\<close>

text \<open>
  A Go \<^verbatim>\<open>error\<close>: a message, or an error wrapped with a context by
  \<^verbatim>\<open>fmt.Errorf("...: %w", err)\<close>.
\<close>

datatype error = Err string | Wrap string error

subsection \<open>JSON documents, \<^verbatim>\<open>json.Unmarshal\<close> and \<^verbatim>\<open>json.MarshalIndent\<close>\<close>

text \<open>
  The byte syntax of JSON is not modelled: a document is its tree. Numbers are integers.
  An object lists its members in the order they were written, duplicates included.
\<close>

datatype json =
    JNull
  | JBool bool
  | JNum int
  | JStr string
  | JArr "json list"
  | JObj "(string \<times> json) list"

text \<open>
  A decoded \<^verbatim>\<open>map[string]any\<close> is kept as the list of its entries, sorted by key, each
  key once. \<open>map_store\<close> is the assignment \<^verbatim>\<open>m[k] = v\<close>.
\<close>

fun map_store :: "string \<Rightarrow> json \<Rightarrow> (string \<times> json) list \<Rightarrow> (string \<times> json) list" where
  "map_store k v [] = [(k, v)]"
| "map_store k v ((k', v') # ms) =
     (if k = k' then (k, v) # ms
      else if k < k' then (k, v) # (k', v') # ms
      else (k', v') # map_store k v ms)"

definition make_map :: "(string \<times> json) list \<Rightarrow> (string \<times> json) list" where
  "make_map ms = foldl (\<lambda>acc kv. map_store (fst kv) (snd kv) acc) [] ms"

text \<open>
  Decoding a document into a Go value: an object becomes a map, so a later member
  replaces an earlier one of the same key.
\<close>

fun decode :: "json \<Rightarrow> json" where
  "decode (JObj ms) = JObj (make_map (map (\<lambda>kv. (fst kv, decode (snd kv))) ms))"
| "decode (JArr xs) = JArr (map decode xs)"
| "decode j = j"

text \<open>
  The buffer holds the documents written to it, in order. \<^verbatim>\<open>json.Unmarshal\<close> into a
  \<^verbatim>\<open>map[string]any\<close> succeeds when the buffer holds exactly one document that is an
  object, or \<^verbatim>\<open>null\<close> (which leaves the map \<^verbatim>\<open>nil\<close>: \<open>None\<close>).
\<close>

type_synonym buffer = "json list"

type_synonym gomap = "(string \<times> json) list option"

fun Unmarshal :: "buffer \<Rightarrow> error + gomap" where
  "Unmarshal [] = Inl (Err ''unexpected end of JSON input'')"
| "Unmarshal [JObj ms] = Inr (Some (make_map (map (\<lambda>kv. (fst kv, decode (snd kv))) ms)))"
| "Unmarshal [JNull] = Inr None"
| "Unmarshal [j] = Inl (Err ''json: cannot unmarshal into Go value of type map[string]interface {}'')"
| "Unmarshal (j # k # js) = Inl (Err ''invalid character after top-level value'')"

text \<open>Quoting a string as \<^verbatim>\<open>encoding/json\<close> does, on ASCII; other bytes are copied.\<close>

definition hex_digit :: "nat \<Rightarrow> char" where
  "hex_digit d = (if d < 10 then char_of (48 + d) else char_of (87 + d))"

definition escape_byte :: "char \<Rightarrow> string" where
  "escape_byte c =
     (if c = CHR 0x5C \<or> c = CHR 0x22 then [CHR 0x5C, c]
      else if c = CHR 0x08 then [CHR 0x5C, CHR ''b'']
      else if c = CHR 0x0C then [CHR 0x5C, CHR ''f'']
      else if c = CHR 0x0A then [CHR 0x5C, CHR ''n'']
      else if c = CHR 0x0D then [CHR 0x5C, CHR ''r'']
      else if c = CHR 0x09 then [CHR 0x5C, CHR ''t'']
      else if of_char c < (32 :: nat) \<or> c = CHR ''<'' \<or> c = CHR ''>'' \<or> c = CHR ''&''
        then [CHR 0x5C, CHR ''u'', CHR ''0'', CHR ''0'',
              hex_digit (of_char c div 16), hex_digit (of_char c mod 16)]
      else [c])"

definition json_quote :: "string \<Rightarrow> string" where
  "json_quote s = CHR 0x22 # concat (map escape_byte s) @ [CHR 0x22]"

definition indent :: "nat \<Rightarrow> string" where
  "indent d = concat (replicate d ''  '')"

fun join_lines :: "string list \<Rightarrow> string" where
  "join_lines [] = []"
| "join_lines [x] = x"
| "join_lines (x # y # xs) = x @ '','' @ [CHR 0x0A] @ join_lines (y # xs)"

text \<open>The indented rendering, with a two space indent and an empty prefix.\<close>

fun pretty :: "nat \<Rightarrow> json \<Rightarrow> string" where
  "pretty d JNull = ''null''"
| "pretty d (JBool b) = (if b then ''true'' else ''false'')"
| "pretty d (JNum i) = Itoa i"
| "pretty d (JStr s) = json_quote s"
| "pretty d (JArr xs) =
     (if xs = [] then ''[]''
      else ''['' @ [CHR 0x0A]
        @ join_lines (map (\<lambda>x. indent (Suc d) @ pretty (Suc d) x) xs)
        @ [CHR 0x0A] @ indent d @ '']'')"
| "pretty d (JObj ms) =
     (if ms = [] then ''{}''
      else ''{'' @ [CHR 0x0A]
        @ join_lines (map (\<lambda>kv. indent (Suc d) @ json_quote (fst kv) @ '': ''
                                 @ pretty (Suc d) (snd kv)) ms)
        @ [CHR 0x0A] @ indent d @ ''}'')"

text \<open>
  \<^verbatim>\<open>json.MarshalIndent(attrs, "", "  ")\<close>. A \<^verbatim>\<open>nil\<close> map is rendered \<^verbatim>\<open>null\<close>. On a
  map decoded from JSON the encoder has no failing case.
\<close>

definition MarshalIndent :: "gomap \<Rightarrow> error + string" where
  "MarshalIndent attrs = (case attrs of None \<Rightarrow> Inr ''null'' | Some m \<Rightarrow> Inr (pretty 0 (JObj m)))"

subsection \<open>The world the handler runs in\<close>

text \<open>
  Buffers (\<^verbatim>\<open>*bytes.Buffer\<close>) and mutexes (\<^verbatim>\<open>*sync.Mutex\<close>) are objects referred to by
  address: \<open>bufs\<close> is the contents of each buffer, \<open>held\<close> tells whether each mutex
  is locked, \<open>next_addr\<close> is the next free address.
  \<open>console\<close> is what has been written to standard output, \<open>log_file\<close> the
  lines appended to \<^verbatim>\<open>./logs.log\<close> (each line without the date, time and call site
  the \<^verbatim>\<open>log\<close> package puts before it), \<open>open_error\<close> the error, if any, with which
  \<^verbatim>\<open>os.OpenFile\<close> answers for a path.
\<close>

type_synonym addr = nat

type_synonym heap = "addr \<Rightarrow> buffer"

record world =
  bufs :: heap
  held :: "addr \<Rightarrow> bool"
  next_addr :: addr
  console :: "string list"
  log_file :: "string list"
  open_error :: "string \<Rightarrow> error option"

subsection \<open>The delegate: a \<^verbatim>\<open>slog.Handler\<close> interface value\<close>

text \<open>
  The four methods of the interface. \<open>d_Handle\<close> acts on the buffers; it yields the
  error it returns (\<open>None\<close> for \<^verbatim>\<open>nil\<close>) and the buffers afterwards, or \<open>None\<close> when the
  call does not return.
\<close>

codatatype delegate = Delegate
  (d_Enabled: "level \<Rightarrow> bool")
  (d_Handle: "slog_record \<Rightarrow> heap \<Rightarrow> (error option \<times> heap) option")
  (d_WithAttrs: "attr list \<Rightarrow> delegate")
  (d_WithGroup: "string \<Rightarrow> delegate")

subsection \<open>The handler\<close>

record Handler =
  Handler_h :: delegate
  Handler_r :: "hook option"
  Handler_b :: addr
  Handler_m :: addr

definition Enabled :: "Handler \<Rightarrow> level \<Rightarrow> bool" where
  "Enabled h lvl = d_Enabled (Handler_h h) lvl"

definition WithAttrs :: "Handler \<Rightarrow> attr list \<Rightarrow> Handler" where
  "WithAttrs h attrs =
     \<lparr>Handler_h = d_WithAttrs (Handler_h h) attrs, Handler_r = Handler_r h,
      Handler_b = Handler_b h, Handler_m = Handler_m h\<rparr>"

definition WithGroup :: "Handler \<Rightarrow> string \<Rightarrow> Handler" where
  "WithGroup h name =
     \<lparr>Handler_h = d_WithGroup (Handler_h h) name, Handler_r = Handler_r h,
      Handler_b = Handler_b h, Handler_m = Handler_m h\<rparr>"

text \<open>The deferred function of \<^verbatim>\<open>computeAttrs\<close>: reset the buffer, then unlock.\<close>

definition deferred :: "Handler \<Rightarrow> world \<Rightarrow> world" where
  "deferred h w =
     (let w1 = w\<lparr>bufs := (bufs w)(Handler_b h := [])\<rparr>
      in w1\<lparr>held := (held w1)(Handler_m h := False)\<rparr>)"

text \<open>
  \<^verbatim>\<open>computeAttrs\<close>. \<^verbatim>\<open>Lock\<close> on a mutex that is held does not return (within one
  thread of control nobody can release it): the result is \<open>None\<close> then, as it is when the
  delegate does not return.
\<close>

definition computeAttrs :: "Handler \<Rightarrow> slog_record \<Rightarrow> world \<Rightarrow> ((error + gomap) \<times> world) option" where
  "computeAttrs h r w =
     (if held w (Handler_m h) then None
      else
        let w1 = w\<lparr>held := (held w)(Handler_m h := True)\<rparr> in
        case d_Handle (Handler_h h) r (bufs w1) of
          None \<Rightarrow> None
        | Some (Some err, bs) \<Rightarrow>
            Some (Inl (Wrap ''error when calling inner handler's Handle'' err),
                  deferred h (w1\<lparr>bufs := bs\<rparr>))
        | Some (None, bs) \<Rightarrow>
            (let w2 = w1\<lparr>bufs := bs\<rparr> in
             case Unmarshal (bufs w2 (Handler_b h)) of
               Inl err \<Rightarrow>
                 Some (Inl (Wrap ''error when unmarshaling inner handler's Handle result'' err),
                       deferred h w2)
             | Inr attrs \<Rightarrow> Some (Inr attrs, deferred h w2)))"

text \<open>\<^verbatim>\<open>if h.r != nil { a = h.r([]string{}, a) }\<close>\<close>

definition rewrite :: "hook option \<Rightarrow> attr \<Rightarrow> attr" where
  "rewrite r a = (case r of None \<Rightarrow> a | Some f \<Rightarrow> f [] a)"

definition openLogFile :: "string \<Rightarrow> world \<Rightarrow> error + string" where
  "openLogFile path w = (case open_error w path of Some err \<Rightarrow> Inl err | None \<Rightarrow> Inr path)"

text \<open>
  The three well-known fields as \<^verbatim>\<open>Handle\<close> computes them (lines 85 to 144): the styled
  level, timestamp and message, and the text accumulated in \<^verbatim>\<open>outForLog\<close>.
\<close>

record fields =
  f_level :: string
  f_timestamp :: string
  f_msg :: string
  f_outForLog :: string

definition renderFields :: "Handler \<Rightarrow> slog_record \<Rightarrow> fields" where
  "renderFields h r =
     (let outForLog = [];
          level = [];
          levelAttr = rewrite (Handler_r h) (Attr LevelKey (VLevel (Level r)));
          (level, outForLog) =
             (if \<not> Attr_Equal levelAttr Attr_zero then
                (let level = Value_String (Value levelAttr) @ '':'';
                     outForLog = outForLog @ level;
                     outForLog = outForLog @ '' ''
                 in (styleLevel (Level r) level, outForLog))
              else (level, outForLog));
          timestamp = [];
          timeAttr = rewrite (Handler_r h) (Attr TimeKey (VString (Format_timeFormat (Time r))));
          outForLog = outForLog @ timestamp;
          outForLog = outForLog @ '' '';
          timestamp =
             (if \<not> Attr_Equal timeAttr Attr_zero
              then colorize lightGray (Value_String (Value timeAttr)) else timestamp);
          msg = [];
          msgAttr = rewrite (Handler_r h) (Attr MessageKey (VString (Message r)));
          outForLog = outForLog @ Value_String (Value msgAttr);
          outForLog = outForLog @ '' '';
          msg =
             (if \<not> Attr_Equal msgAttr Attr_zero
              then colorize white (Value_String (Value msgAttr)) else msg)
      in \<lparr>f_level = level, f_timestamp = timestamp, f_msg = msg, f_outForLog = outForLog\<rparr>)"

text \<open>
  The two lines \<^verbatim>\<open>Handle\<close> composes from the fields and the rendered attributes
  (lines 155 to 171): the styled line and the final contents of \<^verbatim>\<open>outForLog\<close>.
\<close>

definition composeLines :: "fields \<Rightarrow> string \<Rightarrow> string \<times> string" where
  "composeLines fs bytes =
     (let styledOut = [];
          styledOut = (if length (f_timestamp fs) > 0 then styledOut @ f_timestamp fs @ '' '' else styledOut);
          styledOut = (if length (f_level fs) > 0 then styledOut @ f_level fs @ '' '' else styledOut);
          styledOut = (if length (f_msg fs) > 0 then styledOut @ f_msg fs @ '' '' else styledOut);
          outForLog = f_outForLog fs
      in if length bytes > 0
         then (styledOut @ colorize darkGray bytes, outForLog @ bytes)
         else (styledOut, outForLog))"

text \<open>
  How a call of \<^verbatim>\<open>Handle\<close> ends: it returns an error (\<open>None\<close> for \<^verbatim>\<open>nil\<close>), or
  \<^verbatim>\<open>log.Fatal\<close> ends the process.
\<close>

datatype ending = Return "error option" | Fatal error

definition Handle :: "Handler \<Rightarrow> slog_record \<Rightarrow> world \<Rightarrow> (ending \<times> world) option" where
  "Handle h r w =
     (let fs = renderFields h r in
      case computeAttrs h r w of
        None \<Rightarrow> None
      | Some (Inl err, w1) \<Rightarrow> Some (Return (Some err), w1)
      | Some (Inr attrs, w1) \<Rightarrow>
          (case MarshalIndent attrs of
             Inl err \<Rightarrow> Some (Return (Some (Wrap ''error when marshaling attrs'' err)), w1)
           | Inr bytes \<Rightarrow>
               (let (styledOut, outForLog) = composeLines fs bytes;
                    w2 = w1\<lparr>console := console w1 @ [styledOut @ [CHR 0x0A]]\<rparr>
                in case openLogFile ''./logs.log'' w2 of
                     Inl err \<Rightarrow> Some (Fatal err, w2)
                   | Inr file \<Rightarrow>
                       Some (Return None, w2\<lparr>log_file := log_file w2 @ [outForLog]\<rparr>))))"

definition suppressDefaults :: "hook option \<Rightarrow> hook" where
  "suppressDefaults next = (\<lambda>groups a.
     if Key a = TimeKey \<or> Key a = LevelKey \<or> Key a = MessageKey then Attr_zero
     else case next of None \<Rightarrow> a | Some f \<Rightarrow> f groups a)"

subsection \<open>The JSON handler of \<^verbatim>\<open>log/slog\<close>\<close>

text \<open>
  The delegate \<^verbatim>\<open>NewHandler\<close> builds is \<^verbatim>\<open>slog.NewJSONHandler\<close> writing to the buffer.
  It is modelled after the standard library: the document it writes for a record holds
  the built-in fields, then the attributes bound by \<^verbatim>\<open>WithAttrs\<close> and those of the
  record, nested in the groups opened by \<^verbatim>\<open>WithGroup\<close>.
\<close>

datatype scope = WAttrs "attr list" | WGroup string

record JSONHandler =
  jh_w :: addr
  jh_opts :: HandlerOptions
  jh_scopes :: "scope list"

text \<open>\<^verbatim>\<open>Source.group\<close>: the fields of a source location that are set.\<close>

definition source_group :: "source \<Rightarrow> val" where
  "source_group s = VGroup
     ((if Function s \<noteq> [] then [Attr ''function'' (VString (Function s))] else [])
      @ (if File s \<noteq> [] then [Attr ''file'' (VString (File s))] else [])
      @ (if Line s \<noteq> 0 then [Attr ''line'' (VInt (Line s))] else []))"

text \<open>The JSON of a value that is not a group (groups and sources are expanded before).\<close>

fun json_of_value :: "val \<Rightarrow> json" where
  "json_of_value (VString s) = JStr s"
| "json_of_value (VInt i) = JNum i"
| "json_of_value (VBool b) = JBool b"
| "json_of_value (VLevel l) = JStr (Level_String l)"
| "json_of_value (VTime t) = JStr (Format_RFC3339 t)"
| "json_of_value _ = JNull"

fun is_group :: "val \<Rightarrow> bool" where
  "is_group (VGroup as) = True"
| "is_group _ = False"

text \<open>
  \<^verbatim>\<open>handleState.appendAttrs\<close>, with \<^verbatim>\<open>appendAttr\<close> inlined. Each attribute that is not a
  group goes through the rewrite hook \<open>rep\<close>, which sees the names of the open groups
  (\<open>groups\<close>; \<open>None\<close> while they are not tracked). The zero attribute is dropped. A group
  is written as a nested object when one of its members is written, and inlined when
  its key is empty. The result is the members written and whether any attribute
  reported that it was written. The hook may answer with a group whose members are
  rewritten in turn, without end: the result is \<open>None\<close> then.
\<close>

partial_function (option) appendAttrs ::
  "hook option \<Rightarrow> string list option \<Rightarrow> attr list \<Rightarrow> ((string \<times> json) list \<times> bool) option" where
  "appendAttrs rep groups as =
     (case as of
        [] \<Rightarrow> Some ([], False)
      | a # rest \<Rightarrow>
          (let a = (case rep of
                      None \<Rightarrow> a
                    | Some f \<Rightarrow>
                        if is_group (Value a) then a
                        else f (case groups of None \<Rightarrow> [] | Some gs \<Rightarrow> gs) a)
           in if Attr_Equal a Attr_zero then appendAttrs rep groups rest
              else
                let a = (case Value a of VSource src \<Rightarrow> Attr (Key a) (source_group src) | _ \<Rightarrow> a)
                in case Value a of
                     VGroup sub \<Rightarrow>
                       (if sub = [] then
                          Option.bind (appendAttrs rep groups rest) (\<lambda>res. Some (fst res, True))
                        else
                          Option.bind
                            (appendAttrs rep
                               (if Key a \<noteq> [] then map_option (\<lambda>gs. gs @ [Key a]) groups else groups)
                               sub)
                            (\<lambda>inner. Option.bind (appendAttrs rep groups rest)
                               (\<lambda>res.
                                  if \<not> snd inner then Some res
                                  else if Key a = [] then Some (fst inner @ fst res, True)
                                  else Some ((Key a, JObj (fst inner)) # fst res, True))))
                   | v \<Rightarrow>
                       Option.bind (appendAttrs rep groups rest)
                         (\<lambda>res. Some ((Key a, json_of_value v) # fst res, True))))"

text \<open>
  The attributes that are not built in: those bound by \<^verbatim>\<open>WithAttrs\<close> and those of the
  record, inside the groups of \<^verbatim>\<open>WithGroup\<close>. A group is written when something inside
  it is.
\<close>

fun nonBuiltIns ::
  "hook option \<Rightarrow> string list \<Rightarrow> scope list \<Rightarrow> attr list \<Rightarrow> ((string \<times> json) list \<times> bool) option" where
  "nonBuiltIns rep path [] attrs =
     appendAttrs rep (if rep = None then None else Some path) attrs"
| "nonBuiltIns rep path (WAttrs as # rest) attrs =
     Option.bind (appendAttrs rep (if rep = None then None else Some path) as)
       (\<lambda>bound. Option.bind (nonBuiltIns rep path rest attrs)
          (\<lambda>res. Some (fst bound @ fst res, snd bound \<or> snd res)))"
| "nonBuiltIns rep path (WGroup g # rest) attrs =
     Option.bind (nonBuiltIns rep (path @ [g]) rest attrs)
       (\<lambda>res. Some (if snd res then ([(g, JObj (fst res))], True) else ([], False)))"

text \<open>
  The built-in attributes, in the order they are written: the time when it is not zero,
  the level, the source when asked for, the message. They are not in any group.
\<close>

definition builtIns :: "HandlerOptions \<Rightarrow> slog_record \<Rightarrow> attr list" where
  "builtIns opts r =
     (if IsZero (Time r) then [] else [Attr TimeKey (VTime (Time r))])
     @ [Attr LevelKey (VLevel (Level r))]
     @ (if AddSource opts then [Attr SourceKey (VSource (Source r))] else [])
     @ [Attr MessageKey (VString (Message r))]"

definition jh_Enabled :: "JSONHandler \<Rightarrow> level \<Rightarrow> bool" where
  "jh_Enabled jh l =
     (let minLevel = (case MinLevel (jh_opts jh) of None \<Rightarrow> LevelInfo | Some lv \<Rightarrow> lv)
      in l \<ge> minLevel)"

text \<open>
  \<^verbatim>\<open>Handle\<close> of the JSON handler appends one document to its writer. Writing to a
  \<^verbatim>\<open>bytes.Buffer\<close> has no error.
\<close>

definition jh_Handle :: "JSONHandler \<Rightarrow> slog_record \<Rightarrow> heap \<Rightarrow> (error option \<times> heap) option" where
  "jh_Handle jh r bs =
     (let rep = ReplaceAttr (jh_opts jh) in
      Option.bind (appendAttrs rep None (builtIns (jh_opts jh) r))
        (\<lambda>built. Option.bind (nonBuiltIns rep [] (jh_scopes jh) (Attrs r))
           (\<lambda>res. Some (None, bs(jh_w jh := bs (jh_w jh) @ [JObj (fst built @ fst res)])))))"

text \<open>\<^verbatim>\<open>WithAttrs\<close> returns the receiver when every attribute is an empty group.\<close>

definition countEmptyGroups :: "attr list \<Rightarrow> nat" where
  "countEmptyGroups as = length (filter (\<lambda>a. Value a = VGroup []) as)"

definition jh_WithAttrs :: "JSONHandler \<Rightarrow> attr list \<Rightarrow> JSONHandler" where
  "jh_WithAttrs jh as =
     (if countEmptyGroups as = length as then jh
      else jh\<lparr>jh_scopes := jh_scopes jh @ [WAttrs as]\<rparr>)"

definition jh_WithGroup :: "JSONHandler \<Rightarrow> string \<Rightarrow> JSONHandler" where
  "jh_WithGroup jh name = jh\<lparr>jh_scopes := jh_scopes jh @ [WGroup name]\<rparr>"

primcorec json_delegate :: "JSONHandler \<Rightarrow> delegate" where
  "json_delegate jh =
     Delegate (jh_Enabled jh) (jh_Handle jh)
       (\<lambda>as. json_delegate (jh_WithAttrs jh as))
       (\<lambda>name. json_delegate (jh_WithGroup jh name))"

definition NewJSONHandler :: "addr \<Rightarrow> HandlerOptions \<Rightarrow> delegate" where
  "NewJSONHandler w opts = json_delegate \<lparr>jh_w = w, jh_opts = opts, jh_scopes = []\<rparr>"

subsection \<open>The constructor\<close>

text \<open>
  \<^verbatim>\<open>NewHandler\<close> allocates the buffer and the mutex, and builds the JSON handler on the
  buffer with the wrapped hook. A \<^verbatim>\<open>nil\<close> options pointer is \<open>None\<close>.
\<close>

definition NewHandler :: "HandlerOptions option \<Rightarrow> world \<Rightarrow> Handler \<times> world" where
  "NewHandler opts w =
     (let opts = (case opts of None \<Rightarrow> HandlerOptions_zero | Some p \<Rightarrow> p);
          b = next_addr w;
          w = w\<lparr>bufs := (bufs w)(b := []), next_addr := Suc b\<rparr>;
          jh = NewJSONHandler b
                 \<lparr>AddSource = AddSource opts, MinLevel = MinLevel opts,
                  ReplaceAttr = Some (suppressDefaults (ReplaceAttr opts))\<rparr>;
          m = next_addr w;
          w = w\<lparr>held := (held w)(m := False), next_addr := Suc m\<rparr>
      in (\<lparr>Handler_h = jh, Handler_r = ReplaceAttr opts, Handler_b = b, Handler_m = m\<rparr>, w))"

subsection \<open>Sample inputs\<close>

text \<open>
  The world at the start of a program (nothing allocated, nothing written, the log file
  can be opened), a delegate whose \<^verbatim>\<open>Handle\<close> fails, and the first record of the
  demonstration program: \<^verbatim>\<open>logger.Info("Info Level Log")\<close>.
\<close>

definition world_init :: world where
  "world_init = \<lparr>bufs = (\<lambda>_. []), held = (\<lambda>_. False), next_addr = 0, console = [],
     log_file = [], open_error = (\<lambda>_. None)\<rparr>"

primcorec failing_delegate :: "error \<Rightarrow> delegate" where
  "failing_delegate e =
     Delegate (\<lambda>_. True) (\<lambda>r bs. Some (Some e, bs))
       (\<lambda>as. failing_delegate e) (\<lambda>name. failing_delegate e)"

definition sample_time :: gotime where
  "sample_time = \<lparr>IsZero = False, Format_timeFormat = ''[12:00:00.000]'',
     Format_RFC3339 = ''2024-01-01T12:00:00Z'',
     Time_String = ''2024-01-01 12:00:00 +0000 UTC''\<rparr>"

definition sample_record :: slog_record where
  "sample_record = \<lparr>Time = sample_time, Message = ''Info Level Log'', Level = LevelInfo,
     Source = \<lparr>Function = ''main.test1'', File = ''main.go'', Line = 17\<rparr>, Attrs = []\<rparr>"

text \<open>
  What a call of \<^verbatim>\<open>Handle\<close> shows: how it ended, the console and the log file
  afterwards. A hook that drops the attributes with the given keys.
\<close>

definition outputs :: "(ending \<times> world) option \<Rightarrow> (ending \<times> string list \<times> string list) option" where
  "outputs res = (case res of None \<Rightarrow> None | Some (e, w) \<Rightarrow> Some (e, console w, log_file w))"

definition drop_keys :: "string list \<Rightarrow> hook" where
  "drop_keys ks groups a = (if Key a \<in> set ks then Attr_zero else a)"

text \<open>
  A handler derived by a sequence of \<^verbatim>\<open>WithAttrs\<close> and \<^verbatim>\<open>WithGroup\<close> calls. A call of
  \<^verbatim>\<open>WithAttrs\<close> changes the JSON handler unless all its attributes are empty groups.
\<close>

fun derive :: "Handler \<Rightarrow> scope list \<Rightarrow> Handler" where
  "derive h [] = h"
| "derive h (WAttrs as # ops) = derive (WithAttrs h as) ops"
| "derive h (WGroup name # ops) = derive (WithGroup h name) ops"

fun effective :: "scope \<Rightarrow> bool" where
  "effective (WAttrs as) = (countEmptyGroups as \<noteq> length as)"
| "effective (WGroup name) = True"

subsection \<open>Where the well-known keys can come from\<close>

text \<open>
  The keys \<^verbatim>\<open>time\<close>, \<^verbatim>\<open>level\<close> and \<^verbatim>\<open>msg\<close>. An attribute is \<open>top_ok\<close> when it puts no
  group of such a name at the level it stands on: a group with a name must not have
  one of the three, a group with the empty key is inlined and its members must be
  \<open>top_ok\<close>; an attribute that is not a group goes through the hook. A hook is
  \<open>hook_ok\<close> when, asked about an attribute that is not a group and has none of the
  three keys (the wrapped hook asks about no other), it never answers with an attribute
  with one of the three keys, nor with one that is not \<open>top_ok\<close>. A sequence of derivations and the attributes of a
  record are \<open>scopes_ok\<close> when all attributes outside every group are \<open>top_ok\<close> and the
  outermost group has none of the three names. \<open>rename_key\<close> is a hook that renames a
  key.
\<close>

definition is_default_key :: "string \<Rightarrow> bool" where
  "is_default_key k \<longleftrightarrow> k = TimeKey \<or> k = LevelKey \<or> k = MessageKey"

fun top_ok :: "attr \<Rightarrow> bool" and tops_ok :: "attr list \<Rightarrow> bool" where
  "top_ok (Attr k (VGroup sub)) = (if k = [] then tops_ok sub else \<not> is_default_key k)"
| "top_ok (Attr k v) = True"
| "tops_ok [] = True"
| "tops_ok (a # as) = (top_ok a \<and> tops_ok as)"

definition hook_ok :: "hook option \<Rightarrow> bool" where
  "hook_ok next = (case next of None \<Rightarrow> True
     | Some f \<Rightarrow> \<forall>groups a. \<not> is_default_key (Key a) \<longrightarrow> \<not> is_group (Value a) \<longrightarrow>
                  \<not> is_default_key (Key (f groups a)) \<and> top_ok (f groups a))"

definition rename_key :: "string \<Rightarrow> string \<Rightarrow> hook" where
  "rename_key old new groups a = (if Key a = old then Attr new (Value a) else a)"

fun scopes_ok :: "scope list \<Rightarrow> attr list \<Rightarrow> bool" where
  "scopes_ok [] attrs = tops_ok attrs"
| "scopes_ok (WAttrs as # rest) attrs = (tops_ok as \<and> scopes_ok rest attrs)"
| "scopes_ok (WGroup g # rest) attrs = (\<not> is_default_key g)"

subsection \<open>Concurrent calls of \<^verbatim>\<open>computeAttrs\<close>\<close>

text \<open>
  Where a thread stands in \<^verbatim>\<open>computeAttrs\<close>: outside (\<open>Idle\<close>), before \<^verbatim>\<open>h.m.Lock()\<close>,
  before the delegate's \<^verbatim>\<open>Handle\<close>, before \<^verbatim>\<open>json.Unmarshal\<close>, before \<^verbatim>\<open>h.b.Reset()\<close>
  and before \<^verbatim>\<open>h.m.Unlock()\<close> of the deferred function (with the result to return), and
  after the return.
\<close>

datatype pc =
    Idle
  | AtLock Handler slog_record
  | AtHandle Handler slog_record
  | AtUnmarshal Handler
  | AtReset Handler "error + gomap"
  | AtUnlock Handler "error + gomap"
  | Returned "error + gomap"

text \<open>
  The handlers a program can hold: the delegate is a JSON handler writing to the
  handler's own buffer, and buffer and mutex are the two addresses \<^verbatim>\<open>NewHandler\<close>
  allocated.
\<close>

definition valid_handler :: "world \<Rightarrow> Handler \<Rightarrow> bool" where
  "valid_handler w h \<longleftrightarrow>
     (\<exists>jh. Handler_h h = json_delegate jh \<and> jh_w jh = Handler_b h)
     \<and> Handler_m h = Suc (Handler_b h) \<and> Handler_m h < next_addr w"

text \<open>
  One step of one thread, any thread at any time: a handler is built, a thread calls
  \<^verbatim>\<open>computeAttrs\<close>, or takes the next step inside it. \<^verbatim>\<open>Lock\<close> is possible only while the
  mutex is free.
\<close>

inductive step :: "(nat \<Rightarrow> pc) \<times> world \<Rightarrow> (nat \<Rightarrow> pc) \<times> world \<Rightarrow> bool" where
  new: "step (pcs, w) (pcs, snd (NewHandler opts w))"
| call: "pcs t = Idle \<Longrightarrow> valid_handler w h \<Longrightarrow> step (pcs, w) (pcs(t := AtLock h r), w)"
| lock: "pcs t = AtLock h r \<Longrightarrow> \<not> held w (Handler_m h) \<Longrightarrow>
         step (pcs, w) (pcs(t := AtHandle h r), w\<lparr>held := (held w)(Handler_m h := True)\<rparr>)"
| handle_err: "pcs t = AtHandle h r \<Longrightarrow> d_Handle (Handler_h h) r (bufs w) = Some (Some err, bs) \<Longrightarrow>
         step (pcs, w)
           (pcs(t := AtReset h (Inl (Wrap ''error when calling inner handler's Handle'' err))),
            w\<lparr>bufs := bs\<rparr>)"
| handle_ok: "pcs t = AtHandle h r \<Longrightarrow> d_Handle (Handler_h h) r (bufs w) = Some (None, bs) \<Longrightarrow>
         step (pcs, w) (pcs(t := AtUnmarshal h), w\<lparr>bufs := bs\<rparr>)"
| unmarshal: "pcs t = AtUnmarshal h \<Longrightarrow>
         step (pcs, w)
           (pcs(t := AtReset h
              (case Unmarshal (bufs w (Handler_b h)) of
                 Inl err \<Rightarrow> Inl (Wrap ''error when unmarshaling inner handler's Handle result'' err)
               | Inr attrs \<Rightarrow> Inr attrs)), w)"
| reset: "pcs t = AtReset h res \<Longrightarrow>
         step (pcs, w) (pcs(t := AtUnlock h res), w\<lparr>bufs := (bufs w)(Handler_b h := [])\<rparr>)"
| unlock: "pcs t = AtUnlock h res \<Longrightarrow>
         step (pcs, w) (pcs(t := Returned res), w\<lparr>held := (held w)(Handler_m h := False)\<rparr>)"
| return: "pcs t = Returned res \<Longrightarrow> step (pcs, w) (pcs(t := Idle), w)"

text \<open>The states a program reaches from its start, where every thread is outside.\<close>

inductive reachable :: "(nat \<Rightarrow> pc) \<times> world \<Rightarrow> bool" where
  init: "reachable (\<lambda>t. Idle, world_init)"
| step: "reachable s \<Longrightarrow> step s s' \<Longrightarrow> reachable s'"

text \<open>
  The mutex a thread holds, the handler it works on, and the invariant of the reachable
  states: a thread between \<^verbatim>\<open>Lock\<close> and \<^verbatim>\<open>Unlock\<close> holds its mutex, and alone; the buffer
  of a free mutex is empty; the buffer is empty before \<^verbatim>\<open>Unlock\<close>; the handlers are valid.
\<close>

fun cs_mutex :: "pc \<Rightarrow> addr option" where
  "cs_mutex (AtHandle h r) = Some (Handler_m h)"
| "cs_mutex (AtUnmarshal h) = Some (Handler_m h)"
| "cs_mutex (AtReset h res) = Some (Handler_m h)"
| "cs_mutex (AtUnlock h res) = Some (Handler_m h)"
| "cs_mutex _ = None"

fun pc_handler :: "pc \<Rightarrow> Handler option" where
  "pc_handler (AtLock h r) = Some h"
| "pc_handler (AtHandle h r) = Some h"
| "pc_handler (AtUnmarshal h) = Some h"
| "pc_handler (AtReset h res) = Some h"
| "pc_handler (AtUnlock h res) = Some h"
| "pc_handler _ = None"

definition invariant :: "(nat \<Rightarrow> pc) \<times> world \<Rightarrow> bool" where
  "invariant s = (case s of (pcs, w) \<Rightarrow>
      (\<forall>t m. cs_mutex (pcs t) = Some m \<longrightarrow> held w m)
    \<and> (\<forall>t t' m. cs_mutex (pcs t) = Some m \<longrightarrow> cs_mutex (pcs t') = Some m \<longrightarrow> t = t')
    \<and> (\<forall>b. \<not> held w (Suc b) \<longrightarrow> bufs w b = [])
    \<and> (\<forall>t h res. pcs t = AtUnlock h res \<longrightarrow> bufs w (Handler_b h) = [])
    \<and> (\<forall>t h. pc_handler (pcs t) = Some h \<longrightarrow> valid_handler w h))"

section \<open>Properties\<close>

subsection \<open>The colour of the level\<close>

text \<open>
  Claim C3. The colour applied to the level text is a total function of the level with
  the bands of the table: up to Debug (-4) light gray (37), up to Info (0) cyan (36),
  below Warn (4) light blue (94), below Error (8) yellow (33), up to Error+1 (9) light
  red (91), above that light magenta (95). In particular Debug is light gray, Error is
  light red and Error+2 is light magenta. With no rewrite hook the styled level field of
  \<^verbatim>\<open>Handle\<close> is the level's name and a colon in that colour; with a hook it is the
  text the hook left, in the colour of the record's level, or nothing when the hook
  dropped the field.
\<close>

theorem level_colour_bands:
  "styleLevel l s =
     colorize (if l \<le> - 4 then 37 else if l \<le> 0 then 36 else if l < 4 then 94
               else if l < 8 then 33 else if l \<le> 9 then 91 else 95) s
   \<and> styleLevel LevelDebug s = colorize lightGray s
   \<and> styleLevel LevelError s = colorize lightRed s
   \<and> styleLevel (LevelError + 2) s = colorize lightMagenta s
   \<and> f_level (renderFields (h\<lparr>Handler_r := None\<rparr>) r)
       = styleLevel (Level r) (Level_String (Level r) @ '':'')
   \<and> f_level (renderFields h r)
       = (if Attr_Equal (rewrite (Handler_r h) (Attr LevelKey (VLevel (Level r)))) Attr_zero then []
          else styleLevel (Level r)
                 (Value_String (Value (rewrite (Handler_r h) (Attr LevelKey (VLevel (Level r))))) @ '':''))"
  by (simp add: styleLevel_def LevelDebug_def LevelInfo_def LevelWarn_def LevelError_def
      lightGray_def cyan_def lightBlue_def yellow_def lightRed_def lightMagenta_def
      renderFields_def rewrite_def Attr_Equal_def Attr_zero_def LevelKey_def Let_def)

subsection \<open>Derived handlers\<close>

text \<open>
  Claim C8. \<^verbatim>\<open>WithAttrs\<close> and \<^verbatim>\<open>WithGroup\<close> return a handler with the receiver's buffer,
  mutex and rewrite hook (the same addresses, nothing is allocated or copied), which
  differs from the receiver in the delegate only: the receiver's delegate bound to the
  attributes, or scoped to the group. The derived handler resets the same buffer and
  releases the same mutex, and the delegate derived from a JSON handler writes to the
  same buffer.
\<close>

theorem derived_handlers_share:
  "Handler_b (WithAttrs h as) = Handler_b h \<and> Handler_m (WithAttrs h as) = Handler_m h
   \<and> Handler_r (WithAttrs h as) = Handler_r h
   \<and> Handler_h (WithAttrs h as) = d_WithAttrs (Handler_h h) as
   \<and> Handler_b (WithGroup h name) = Handler_b h \<and> Handler_m (WithGroup h name) = Handler_m h
   \<and> Handler_r (WithGroup h name) = Handler_r h
   \<and> Handler_h (WithGroup h name) = d_WithGroup (Handler_h h) name
   \<and> WithAttrs h as = h\<lparr>Handler_h := d_WithAttrs (Handler_h h) as\<rparr>
   \<and> WithGroup h name = h\<lparr>Handler_h := d_WithGroup (Handler_h h) name\<rparr>
   \<and> deferred (WithAttrs h as) = deferred h \<and> deferred (WithGroup h name) = deferred h
   \<and> Handler_h (WithAttrs (h\<lparr>Handler_h := json_delegate jh\<rparr>) as)
       = json_delegate (jh_WithAttrs jh as)
   \<and> Handler_h (WithGroup (h\<lparr>Handler_h := json_delegate jh\<rparr>) name)
       = json_delegate (jh_WithGroup jh name)
   \<and> jh_w (jh_WithAttrs jh as) = jh_w jh \<and> jh_w (jh_WithGroup jh name) = jh_w jh"
  by (simp add: WithAttrs_def WithGroup_def deferred_def fun_eq_iff
      jh_WithAttrs_def jh_WithGroup_def)

subsection \<open>The constructor on a nil options pointer\<close>

text \<open>
  Claim C10. \<^verbatim>\<open>NewHandler(nil)\<close> is \<^verbatim>\<open>NewHandler\<close> of the zero options: it returns (the
  function is total) the handler with no rewrite hook whose delegate is the JSON handler
  on the fresh buffer with no minimum level, no source locations and the wrapped hook
  around no hook.
\<close>

theorem NewHandler_nil:
  "NewHandler None w = NewHandler (Some HandlerOptions_zero) w
   \<and> fst (NewHandler None w) =
       \<lparr>Handler_h = NewJSONHandler (next_addr w)
          \<lparr>AddSource = False, MinLevel = None, ReplaceAttr = Some (suppressDefaults None)\<rparr>,
        Handler_r = None, Handler_b = next_addr w, Handler_m = Suc (next_addr w)\<rparr>"
  by (simp add: NewHandler_def HandlerOptions_zero_def Let_def)

subsection \<open>Errors of \<^verbatim>\<open>Handle\<close>\<close>

text \<open>The ways \<^verbatim>\<open>computeAttrs\<close> returns: one per exit path of the source.\<close>

lemma computeAttrs_cases:
  "computeAttrs h r w = Some (res, w') \<longleftrightarrow>
     \<not> held w (Handler_m h) \<and>
     (\<exists>bs. w' = deferred h (w\<lparr>held := (held w)(Handler_m h := True), bufs := bs\<rparr>) \<and>
        ((\<exists>err. d_Handle (Handler_h h) r (bufs w) = Some (Some err, bs)
               \<and> res = Inl (Wrap ''error when calling inner handler's Handle'' err))
         \<or> (d_Handle (Handler_h h) r (bufs w) = Some (None, bs)
              \<and> (\<exists>err. Unmarshal (bs (Handler_b h)) = Inl err
                    \<and> res = Inl (Wrap ''error when unmarshaling inner handler's Handle result'' err)))
         \<or> (d_Handle (Handler_h h) r (bufs w) = Some (None, bs)
              \<and> (\<exists>attrs. Unmarshal (bs (Handler_b h)) = Inr attrs \<and> res = Inr attrs))))"
  unfolding computeAttrs_def Let_def
  by (auto split: option.splits sum.splits prod.splits)

text \<open>
  Claim C4. \<^verbatim>\<open>Handle\<close> returns an error exactly when the delegate's \<^verbatim>\<open>Handle\<close> fails
  (the error wrapped with the context of the inner handler), when the buffer does not
  decode (wrapped with the context of the unmarshalling), or when the attributes cannot
  be rendered (wrapped with the context of the marshalling); and then nothing has been
  written to the console or to the log file.
\<close>

theorem Handle_error_iff:
  "(Handle h r w = Some (Return (Some e), w') \<longleftrightarrow>
     \<not> held w (Handler_m h) \<and>
     (\<exists>bs. w' = deferred h (w\<lparr>held := (held w)(Handler_m h := True), bufs := bs\<rparr>) \<and>
        ((\<exists>err. d_Handle (Handler_h h) r (bufs w) = Some (Some err, bs)
               \<and> e = Wrap ''error when calling inner handler's Handle'' err)
         \<or> (d_Handle (Handler_h h) r (bufs w) = Some (None, bs)
              \<and> (\<exists>err. Unmarshal (bs (Handler_b h)) = Inl err
                    \<and> e = Wrap ''error when unmarshaling inner handler's Handle result'' err))
         \<or> (d_Handle (Handler_h h) r (bufs w) = Some (None, bs)
              \<and> (\<exists>attrs err. Unmarshal (bs (Handler_b h)) = Inr attrs
                    \<and> MarshalIndent attrs = Inl err
                    \<and> e = Wrap ''error when marshaling attrs'' err)))))
   \<and> (Handle h r w = Some (Return (Some e), w') \<longrightarrow>
        console w' = console w \<and> log_file w' = log_file w)"
proof -
  have H: "Handle h r w = Some (Return (Some e), w') \<longleftrightarrow>
      (computeAttrs h r w = Some (Inl e, w')
       \<or> (\<exists>attrs err. computeAttrs h r w = Some (Inr attrs, w') \<and> MarshalIndent attrs = Inl err
             \<and> e = Wrap ''error when marshaling attrs'' err))"
    unfolding Handle_def Let_def openLogFile_def
    by (auto split: option.splits sum.splits prod.splits)
  have frame: "console w' = console w \<and> log_file w' = log_file w"
    if "computeAttrs h r w = Some (res, w')" for res
    using that unfolding computeAttrs_cases by (auto simp: deferred_def Let_def)
  show ?thesis
    unfolding H computeAttrs_cases using frame by (auto simp: computeAttrs_cases)
qed

theorem Handle_error_iff_witness:
  "Handle \<lparr>Handler_h = failing_delegate (Err ''disk full''), Handler_r = None,
           Handler_b = 0, Handler_m = 1\<rparr> sample_record world_init
     = Some (Return (Some (Wrap ''error when calling inner handler's Handle'' (Err ''disk full''))),
         deferred \<lparr>Handler_h = failing_delegate (Err ''disk full''), Handler_r = None,
                   Handler_b = 0, Handler_m = 1\<rparr>
           (world_init\<lparr>held := (held world_init)(1 := True), bufs := bufs world_init\<rparr>))
   \<and> console (deferred \<lparr>Handler_h = failing_delegate (Err ''disk full''), Handler_r = None,
                   Handler_b = 0, Handler_m = 1\<rparr>
           (world_init\<lparr>held := (held world_init)(1 := True), bufs := bufs world_init\<rparr>)) = []
   \<and> log_file (deferred \<lparr>Handler_h = failing_delegate (Err ''disk full''), Handler_r = None,
                   Handler_b = 0, Handler_m = 1\<rparr>
           (world_init\<lparr>held := (held world_init)(1 := True), bufs := bufs world_init\<rparr>)) = []"
  using Handle_error_iff [of
      "\<lparr>Handler_h = failing_delegate (Err ''disk full''), Handler_r = None,
        Handler_b = 0, Handler_m = 1\<rparr>"
      sample_record world_init
      "Wrap ''error when calling inner handler's Handle'' (Err ''disk full'')"
      "deferred \<lparr>Handler_h = failing_delegate (Err ''disk full''), Handler_r = None,
                 Handler_b = 0, Handler_m = 1\<rparr>
         (world_init\<lparr>held := (held world_init)(1 := True), bufs := bufs world_init\<rparr>)"]
  by (simp add: world_init_def)

subsection \<open>Running the handler on concrete records\<close>

text \<open>The two cases of \<open>appendAttrs\<close>, for evaluation.\<close>

lemma appendAttrs_Nil: "appendAttrs rep groups [] = Some ([], False)"
  by (subst appendAttrs.simps) simp

lemma appendAttrs_Cons:
  "appendAttrs rep groups (a # rest) =
          (let a = (case rep of
                      None \<Rightarrow> a
                    | Some f \<Rightarrow>
                        if is_group (Value a) then a
                        else f (case groups of None \<Rightarrow> [] | Some gs \<Rightarrow> gs) a)
           in if Attr_Equal a Attr_zero then appendAttrs rep groups rest
              else
                let a = (case Value a of VSource src \<Rightarrow> Attr (Key a) (source_group src) | _ \<Rightarrow> a)
                in case Value a of
                     VGroup sub \<Rightarrow>
                       (if sub = [] then
                          Option.bind (appendAttrs rep groups rest) (\<lambda>res. Some (fst res, True))
                        else
                          Option.bind
                            (appendAttrs rep
                               (if Key a \<noteq> [] then map_option (\<lambda>gs. gs @ [Key a]) groups else groups)
                               sub)
                            (\<lambda>inner. Option.bind (appendAttrs rep groups rest)
                               (\<lambda>res.
                                  if \<not> snd inner then Some res
                                  else if Key a = [] then Some (fst inner @ fst res, True)
                                  else Some ((Key a, JObj (fst inner)) # fst res, True))))
                   | v \<Rightarrow>
                       Option.bind (appendAttrs rep groups rest)
                         (\<lambda>res. Some ((Key a, json_of_value v) # fst res, True)))"
  by (subst appendAttrs.simps) simp

text \<open>Rules that evaluate a call of \<^verbatim>\<open>Handle\<close> on a handler built by \<^verbatim>\<open>NewHandler\<close>.\<close>

lemma colorize_nonempty [simp]: "colorize c v \<noteq> []"
  by (simp add: colorize_def)

lemma Itoa_500: "Itoa 500 = ''500''"
  by code_simp

lemmas run_simps = appendAttrs_Nil appendAttrs_Cons Let_def outputs_def
  NewHandler_def NewJSONHandler_def HandlerOptions_zero_def
  Handle_def computeAttrs_def deferred_def renderFields_def composeLines_def rewrite_def openLogFile_def
  suppressDefaults_def Attr_Equal_def Attr_zero_def TimeKey_def LevelKey_def MessageKey_def SourceKey_def
  jh_Handle_def builtIns_def MarshalIndent_def make_map_def Level_String_def level_str_def
  LevelInfo_def LevelDebug_def LevelWarn_def LevelError_def styleLevel_def

lemmas sample_simps = world_init_def sample_record_def sample_time_def drop_keys_def


text \<open>
  Claim C7. For the record \<^verbatim>\<open>Info "Info Level Log"\<close> without attributes the decoded
  mapping is empty and the claim expects no blob after the message. The code renders the
  empty mapping as \<^verbatim>\<open>{}\<close>, which is not empty, so the guard \<^verbatim>\<open>len(bytes) > 0\<close> lets it
  through: the console line ends with the dark gray \<^verbatim>\<open>{}\<close> and the file line with \<^verbatim>\<open>{}\<close>.
  The rendering is never empty, for any mapping.
\<close>

theorem info_line_has_blob:
  "outputs (Handle (fst (NewHandler None world_init)) sample_record (snd (NewHandler None world_init)))
     = Some (Return None,
         [colorize lightGray ''[12:00:00.000]'' @ '' ''
                      @ colorize cyan ''INFO:'' @ '' ''
                      @ colorize white ''Info Level Log'' @ '' ''
                      @ colorize darkGray ''{}'' @ [CHR 0x0A]],
         [''INFO:  Info Level Log {}''])
   \<and> MarshalIndent (Some []) = Inr ''{}''
   \<and> MarshalIndent attrs \<noteq> Inr []
   \<and> outputs (Handle (fst (NewHandler None world_init)) sample_record (snd (NewHandler None world_init)))
     \<noteq> Some (Return None,
         [colorize lightGray ''[12:00:00.000]'' @ '' ''
                      @ colorize cyan ''INFO:'' @ '' ''
                      @ colorize white ''Info Level Log'' @ '' '' @ [CHR 0x0A]],
         [''INFO:  Info Level Log ''])"
  by (simp add: run_simps sample_simps split: option.splits)

text \<open>
  Claim C5. A hook that returns the zero attribute for the time and the message: the
  styled line holds neither field, but the file line still holds the separating space
  of the timestamp, and \<^verbatim>\<open><nil>\<close> with its separating space for the message (the level
  is written inside the test for the zero attribute, the other two outside).
\<close>

theorem suppressed_fields_in_plain_line:
  "outputs (Handle (fst (NewHandler (Some (HandlerOptions_zero\<lparr>ReplaceAttr := Some (drop_keys [''time'', ''msg''])\<rparr>)) world_init))
        sample_record
        (snd (NewHandler (Some (HandlerOptions_zero\<lparr>ReplaceAttr := Some (drop_keys [''time'', ''msg''])\<rparr>)) world_init)))
     = Some (Return None,
         [colorize cyan ''INFO:'' @ '' '' @ colorize darkGray ''{}'' @ [CHR 0x0A]],
         [''INFO:  <nil> {}''])"
  by (simp add: run_simps sample_simps)

text \<open>
  Claim C6. The file line holds the level, a space, the text of \<^verbatim>\<open>timestamp\<close> and a
  space, the message and a space, then the blob; but \<^verbatim>\<open>timestamp\<close> is written before it
  is assigned, so for every record the line holds nothing between the two spaces. Shown
  for every record on a handler without hook, and on \<^verbatim>\<open>Error\<close> with the attribute
  \<^verbatim>\<open>code=500\<close>.
\<close>

theorem plain_line_without_timestamp:
  "f_outForLog (renderFields (h\<lparr>Handler_r := None\<rparr>) r)
     = Level_String (Level r) @ '':'' @ '' '' @ '' '' @ Message r @ '' ''
   \<and> outputs (Handle (fst (NewHandler None world_init))
        (sample_record\<lparr>Level := LevelError, Message := ''This is an error message'',
                         Attrs := [Attr ''code'' (VInt 500)]\<rparr>)
        (snd (NewHandler None world_init)))
     = Some (Return None,
         [colorize lightGray ''[12:00:00.000]'' @ '' ''
                      @ colorize lightRed ''ERROR:'' @ '' ''
                      @ colorize white ''This is an error message'' @ '' ''
                      @ colorize darkGray (''{'' @ [CHR 0x0A] @ ''  '' @ [CHR 0x22] @ ''code'' @ [CHR 0x22] @ '': 500'' @ [CHR 0x0A] @ ''}'') @ [CHR 0x0A]],
         [''ERROR:  This is an error message {'' @ [CHR 0x0A] @ ''  '' @ [CHR 0x22] @ ''code'' @ [CHR 0x22] @ '': 500'' @ [CHR 0x0A] @ ''}''])"
  by (simp add: run_simps sample_simps indent_def json_quote_def escape_byte_def Itoa_500)

subsection \<open>Handlers built by the constructor and derived from it\<close>

text \<open>
  Every handler of the package is built by \<^verbatim>\<open>NewHandler\<close> and derived by \<^verbatim>\<open>WithAttrs\<close>
  and \<^verbatim>\<open>WithGroup\<close>: its delegate is a JSON handler on the handler's own buffer, with the
  wrapped hook, and with the scopes of the effective derivations.
\<close>

lemma derive_json:
  "Handler_h h = json_delegate jh \<Longrightarrow>
   derive h ops = \<lparr>Handler_h = json_delegate (jh\<lparr>jh_scopes := jh_scopes jh @ filter effective ops\<rparr>),
                   Handler_r = Handler_r h, Handler_b = Handler_b h, Handler_m = Handler_m h\<rparr>"
proof (induction ops arbitrary: h jh)
  case Nil
  then show ?case by simp
next
  case (Cons s ops)
  show ?case
  proof (cases s)
    case (WAttrs as)
    have "Handler_h (WithAttrs h as) = json_delegate (jh_WithAttrs jh as)"
      using Cons.prems by (simp add: WithAttrs_def)
    from Cons.IH [OF this] show ?thesis
      using WAttrs by (simp add: WithAttrs_def jh_WithAttrs_def)
  next
    case (WGroup name)
    have "Handler_h (WithGroup h name) = json_delegate (jh_WithGroup jh name)"
      using Cons.prems by (simp add: WithGroup_def)
    from Cons.IH [OF this] show ?thesis
      using WGroup by (simp add: WithGroup_def jh_WithGroup_def)
  qed
qed

lemma NewHandler_json:
  "fst (NewHandler opts w) =
     \<lparr>Handler_h = json_delegate
        \<lparr>jh_w = next_addr w,
         jh_opts = \<lparr>AddSource = AddSource (case opts of None \<Rightarrow> HandlerOptions_zero | Some p \<Rightarrow> p),
                    MinLevel = MinLevel (case opts of None \<Rightarrow> HandlerOptions_zero | Some p \<Rightarrow> p),
                    ReplaceAttr = Some (suppressDefaults
                      (ReplaceAttr (case opts of None \<Rightarrow> HandlerOptions_zero | Some p \<Rightarrow> p)))\<rparr>,
         jh_scopes = []\<rparr>,
      Handler_r = ReplaceAttr (case opts of None \<Rightarrow> HandlerOptions_zero | Some p \<Rightarrow> p),
      Handler_b = next_addr w, Handler_m = Suc (next_addr w)\<rparr>"
  by (simp add: NewHandler_def NewJSONHandler_def Let_def)

lemma nonBuiltIns_trailing_group:
  "nonBuiltIns rep path (ss @ [WGroup g]) [] = nonBuiltIns rep path ss []"
proof (induction ss arbitrary: path)
  case Nil
  show ?case by (simp add: appendAttrs_Nil)
next
  case (Cons s ss)
  then show ?case by (cases s) simp_all
qed

lemma nonBuiltIns_trailing_group':
  "nonBuiltIns rep path (ss @ ts @ [WGroup g]) [] = nonBuiltIns rep path (ss @ ts) []"
  using nonBuiltIns_trailing_group [of rep path "ss @ ts" g] by simp

lemma Handle_cong:
  assumes "Handler_r h' = Handler_r h" and "Handler_b h' = Handler_b h"
    and "Handler_m h' = Handler_m h"
    and "d_Handle (Handler_h h') r = d_Handle (Handler_h h) r"
  shows "Handle h' r w = Handle h r w"
  unfolding Handle_def computeAttrs_def renderFields_def deferred_def assms ..

text \<open>
  Claim C9, amended. \<^verbatim>\<open>WithAttrs\<close> with no attributes returns a handler equal to the
  receiver. \<^verbatim>\<open>WithGroup\<close> with the empty name returns a handler with the same
  \<^verbatim>\<open>Enabled\<close>, and with the same \<^verbatim>\<open>Handle\<close> on every record without attributes.
\<close>

theorem empty_derivations:
  "WithAttrs (derive (fst (NewHandler opts w0)) ops) [] = derive (fst (NewHandler opts w0)) ops
   \<and> Enabled (WithGroup (derive (fst (NewHandler opts w0)) ops) []) l
       = Enabled (derive (fst (NewHandler opts w0)) ops) l
   \<and> Handle (WithGroup (derive (fst (NewHandler opts w0)) ops) []) (r\<lparr>Attrs := []\<rparr>) w
       = Handle (derive (fst (NewHandler opts w0)) ops) (r\<lparr>Attrs := []\<rparr>) w"
proof -
  let ?h = "derive (fst (NewHandler opts w0)) ops"
  obtain jh where jh: "Handler_h (fst (NewHandler opts w0)) = json_delegate jh"
    by (simp add: NewHandler_json)
  note d = derive_json [OF jh, of ops]
  have 1: "WithAttrs ?h [] = ?h"
    by (subst (1 2) d) (simp add: WithAttrs_def jh_WithAttrs_def countEmptyGroups_def)
  have 2: "Enabled (WithGroup ?h []) l = Enabled ?h l"
    by (subst (1 2) d) (simp add: Enabled_def WithGroup_def jh_WithGroup_def jh_Enabled_def)
  have 3: "Handle (WithGroup ?h []) (r\<lparr>Attrs := []\<rparr>) w = Handle ?h (r\<lparr>Attrs := []\<rparr>) w"
    by (rule Handle_cong)
      (simp_all add: d WithGroup_def jh_WithGroup_def jh_Handle_def nonBuiltIns_trailing_group' fun_eq_iff)
  from 1 2 3 show ?thesis by simp
qed

text \<open>
  Claim C9 as stated fails for \<^verbatim>\<open>WithGroup("")\<close>: the handler does not test for the empty
  name, the JSON handler opens a group of that name, and the attribute \<^verbatim>\<open>code=500\<close> of a
  record is decoded under the key \<^verbatim>\<open>""\<close> instead of at the top.
\<close>

theorem empty_group_counterexample:
  "map_option fst (computeAttrs (WithGroup (fst (NewHandler None world_init)) [])
      (sample_record\<lparr>Attrs := [Attr ''code'' (VInt 500)]\<rparr>) (snd (NewHandler None world_init)))
     = Some (Inr (Some [([], JObj [(''code'', JNum 500)])]))
   \<and> map_option fst (computeAttrs (fst (NewHandler None world_init))
      (sample_record\<lparr>Attrs := [Attr ''code'' (VInt 500)]\<rparr>) (snd (NewHandler None world_init)))
     = Some (Inr (Some [(''code'', JNum 500)]))
   \<and> Handle (WithGroup (fst (NewHandler None world_init)) [])
        (sample_record\<lparr>Attrs := [Attr ''code'' (VInt 500)]\<rparr>) (snd (NewHandler None world_init))
     \<noteq> Handle (fst (NewHandler None world_init))
        (sample_record\<lparr>Attrs := [Attr ''code'' (VInt 500)]\<rparr>) (snd (NewHandler None world_init))"
  by (simp add: run_simps sample_simps WithGroup_def jh_WithGroup_def indent_def json_quote_def escape_byte_def Itoa_500)

subsection \<open>The keys of the attribute mapping\<close>

lemma keys_map_store: "fst ` set (map_store k v ms) = insert k (fst ` set ms)"
proof (induction ms)
  case Nil
  show ?case by simp
next
  case (Cons p ms)
  obtain k' v' where p: "p = (k', v')" by (cases p)
  show ?case using Cons.IH by (simp add: p insert_commute)
qed

lemma keys_foldl_map_store:
  "fst ` set (foldl (\<lambda>acc kv. map_store (fst kv) (snd kv) acc) acc ms) = fst ` set acc \<union> fst ` set ms"
  by (induction ms arbitrary: acc) (simp_all add: keys_map_store)

lemma keys_make_map: "fst ` set (make_map ms) = fst ` set ms"
  by (simp add: make_map_def keys_foldl_map_store)

lemma Unmarshal_keys:
  assumes "Unmarshal buf = Inr (Some m)"
  shows "\<exists>ms. buf = [JObj ms] \<and> fst ` set m = fst ` set ms"
proof (cases buf rule: Unmarshal.cases)
  case (2 ms)
  have "fst ` set (make_map (map (\<lambda>kv. (fst kv, decode (snd kv))) ms)) = fst ` set ms"
    by (simp add: keys_make_map image_image)
  with 2 assms show ?thesis by auto
qed (use assms in simp_all)

lemma top_ok_not_group: "\<not> is_group (Value a) \<Longrightarrow> top_ok a"
  by (cases a; cases "Value a") auto

lemma wrapped_ok:
  assumes "hook_ok next" and "\<not> is_group (Value a)"
    and "\<not> Attr_Equal (suppressDefaults next gs a) Attr_zero"
  shows "\<not> is_default_key (Key (suppressDefaults next gs a)) \<and> top_ok (suppressDefaults next gs a)"
  using assms
  by (auto simp: suppressDefaults_def is_default_key_def hook_ok_def Attr_Equal_def Attr_zero_def
      top_ok_not_group split: option.splits if_splits)

lemma tops_ok_source_group: "source_group s = VGroup sub \<Longrightarrow> tops_ok sub"
  by (auto simp: source_group_def)

lemma appendAttrs_keys:
  assumes run: "appendAttrs rep groups as = Some res"
    and ok: "hook_ok next"
  shows "rep = Some (suppressDefaults next) \<longrightarrow> tops_ok as \<longrightarrow>
         (\<forall>k\<in>fst ` set (fst res). \<not> is_default_key k)"
proof (rule appendAttrs.raw_induct [where P = "\<lambda>rep groups as res.
      rep = Some (suppressDefaults next) \<longrightarrow> tops_ok as \<longrightarrow>
      (\<forall>k\<in>fst ` set (fst res). \<not> is_default_key k)", OF _ run], goal_cases)
  case (1 f rep groups as res)
  note body = 1(2)
  show ?case
  proof (intro impI)
  assume rep: "rep = Some (suppressDefaults next)" and tops_as: "tops_ok as"
  have IH: "\<forall>k\<in>fst ` set (fst y). \<not> is_default_key k"
    if "f rep groups' as' = Some y" and "tops_ok as'" for groups' as' y
    using 1(1) [OF that(1)] rep that(2) by simp
  show "\<forall>k\<in>fst ` set (fst res). \<not> is_default_key k"
  proof (cases as)
    case Nil
    with body show ?thesis by auto
  next
    case (Cons a rest)
    let ?gs = "case groups of None \<Rightarrow> [] | Some gs \<Rightarrow> gs"
    define a1 where "a1 = (if is_group (Value a) then a else suppressDefaults next ?gs a)"
    define a2 where "a2 = (case Value a1 of VSource src \<Rightarrow> Attr (Key a1) (source_group src) | _ \<Rightarrow> a1)"
    from tops_as Cons have tops: "top_ok a" "tops_ok rest" by simp_all
    have rest_ok: "\<forall>k\<in>fst ` set (fst y). \<not> is_default_key k" if "f rep groups rest = Some y" for y
      using IH [OF that tops(2)] .
    show ?thesis
    proof (cases "Attr_Equal a1 Attr_zero")
      case True
      with body Cons rep have "f rep groups rest = Some res"
        by (simp add: a1_def Let_def)
      then show ?thesis by (rule rest_ok)
    next
      case False
      have a1ok: "top_ok a1" and a1key: "\<not> is_group (Value a1) \<Longrightarrow> \<not> is_default_key (Key a1)"
        using wrapped_ok [OF ok, of a ?gs] False tops(1)
        by (auto simp: a1_def split: if_splits)
      define B where "B x = (case Value x of
             VGroup sub \<Rightarrow>
               (if sub = [] then Option.bind (f rep groups rest) (\<lambda>res. Some (fst res, True))
                else Option.bind
                       (f rep (if Key x \<noteq> [] then map_option (\<lambda>gs. gs @ [Key x]) groups else groups) sub)
                       (\<lambda>inner. Option.bind (f rep groups rest)
                          (\<lambda>res. if \<not> snd inner then Some res
                                  else if Key x = [] then Some (fst inner @ fst res, True)
                                  else Some ((Key x, JObj (fst inner)) # fst res, True))))
           | v \<Rightarrow> Option.bind (f rep groups rest)
                    (\<lambda>res. Some ((Key x, json_of_value v) # fst res, True)))" for x
      have "(if Attr_Equal a1 Attr_zero then f rep groups rest else B a2) = Some res"
        using body unfolding Cons rep a1_def a2_def B_def
        by (simp only: list.case option.case Let_def)
      with False have body2: "B a2 = Some res" by simp
      show ?thesis
      proof (cases "is_group (Value a2)")
        case True
        then obtain sub where sub: "Value a2 = VGroup sub" by (cases "Value a2") auto
        have key2: "Key a2 \<noteq> [] \<Longrightarrow> \<not> is_default_key (Key a2)"
          and sub_ok: "Key a2 = [] \<Longrightarrow> tops_ok sub"
          using sub a1ok a1key
          by (cases a1; cases "Value a1"; auto simp: a2_def dest: tops_ok_source_group)+
        show ?thesis
        proof (cases "sub = []")
          case True
          with body2 sub obtain y where "f rep groups rest = Some y" "res = (fst y, True)"
            by (auto simp: B_def bind_eq_Some_conv)
          with rest_ok show ?thesis by simp
        next
          case False
          let ?G = "if Key a2 \<noteq> [] then map_option (\<lambda>gs. gs @ [Key a2]) groups else groups"
          let ?K = "\<lambda>inner res. if \<not> snd inner then Some res
                                  else if Key a2 = [] then Some (fst inner @ fst res, True)
                                  else Some ((Key a2, JObj (fst inner)) # fst res, True)"
          from body2 sub False
          have b3: "Option.bind (f rep ?G sub) (\<lambda>inner. Option.bind (f rep groups rest) (?K inner)) = Some res"
            by (simp add: B_def)
          from b3 [unfolded bind_eq_Some_conv] obtain inner y where
            inner: "f rep ?G sub = Some inner"
            and y: "f rep groups rest = Some y" and b5: "?K inner y = Some res" by blast
          from b5 have res: "res = (if \<not> snd inner then y
                             else if Key a2 = [] then (fst inner @ fst y, True)
                             else ((Key a2, JObj (fst inner)) # fst y, True))"
            by (simp split: if_splits)
          have "\<forall>k\<in>fst ` set (fst inner). \<not> is_default_key k" if "Key a2 = []"
            using IH [OF inner sub_ok [OF that]] .
          with rest_ok [OF y] key2 res show ?thesis by (auto split: if_splits)
        qed
      next
        case False
        then have "\<not> is_group (Value a1)" and k: "Key a2 = Key a1"
          by (cases "Value a1"; simp add: a2_def source_group_def)+
        then have key2: "\<not> is_default_key (Key a2)" using a1key by simp
        from False body2 obtain y where "f rep groups rest = Some y"
          "res = ((Key a2, json_of_value (Value a2)) # fst y, True)"
          by (cases "Value a2") (auto simp: B_def bind_eq_Some_conv)
        with rest_ok key2 show ?thesis by simp
      qed
    qed
  qed
qed
qed

lemma nonBuiltIns_keys:
  assumes ok: "hook_ok next"
  shows "nonBuiltIns (Some (suppressDefaults next)) path ss attrs = Some res \<Longrightarrow>
         scopes_ok ss attrs \<Longrightarrow> \<forall>k\<in>fst ` set (fst res). \<not> is_default_key k"
proof (induction ss arbitrary: path res)
  case Nil
  then show ?case using appendAttrs_keys [OF _ ok] by simp
next
  case (Cons s ss)
  show ?case
  proof (cases s)
    case (WAttrs as)
    with Cons.prems obtain bound rest where
      bound: "appendAttrs (Some (suppressDefaults next)) (Some path) as = Some bound"
      and rest: "nonBuiltIns (Some (suppressDefaults next)) path ss attrs = Some rest"
      and res: "res = (fst bound @ fst rest, snd bound \<or> snd rest)"
      by (auto simp: bind_eq_Some_conv)
    from Cons.prems WAttrs have "tops_ok as" "scopes_ok ss attrs" by simp_all
    with appendAttrs_keys [OF bound ok] Cons.IH [OF rest] res show ?thesis by auto
  next
    case (WGroup g)
    with Cons.prems show ?thesis by (auto simp: bind_eq_Some_conv split: if_splits)
  qed
qed

lemma tops_ok_builtIns: "tops_ok (builtIns opts r)"
  by (simp add: builtIns_def)

lemma jh_Handle_keys:
  assumes "ReplaceAttr (jh_opts jh) = Some (suppressDefaults next)" and ok: "hook_ok next"
    and "scopes_ok (jh_scopes jh) (Attrs r)" and "jh_Handle jh r bs = Some (e, bs')"
  shows "\<exists>ms. bs' = bs(jh_w jh := bs (jh_w jh) @ [JObj ms]) \<and> (\<forall>k\<in>fst ` set ms. \<not> is_default_key k)"
proof -
  from assms(1,4) obtain built res where
    built: "appendAttrs (Some (suppressDefaults next)) None (builtIns (jh_opts jh) r) = Some built"
    and res: "nonBuiltIns (Some (suppressDefaults next)) [] (jh_scopes jh) (Attrs r) = Some res"
    and bs': "bs' = bs(jh_w jh := bs (jh_w jh) @ [JObj (fst built @ fst res)])"
    by (auto simp: jh_Handle_def Let_def bind_eq_Some_conv)
  from appendAttrs_keys [OF built ok] tops_ok_builtIns
  have "\<forall>k\<in>fst ` set (fst built). \<not> is_default_key k" by simp
  moreover from nonBuiltIns_keys [OF ok res assms(3)]
  have "\<forall>k\<in>fst ` set (fst res). \<not> is_default_key k" .
  ultimately have "\<forall>k\<in>fst ` set (fst built @ fst res). \<not> is_default_key k" by auto
  with bs' show ?thesis by blast
qed

lemma scopes_ok_filter: "scopes_ok ops attrs \<Longrightarrow> scopes_ok (filter effective ops) attrs"
proof (induction ops)
  case Nil
  then show ?case by simp
next
  case (Cons s ops)
  then show ?case by (cases s) auto
qed

text \<open>
  Claim C2, amended. The hook installed by \<^verbatim>\<open>NewHandler\<close> returns the zero attribute for
  an attribute with the key \<^verbatim>\<open>time\<close>, \<^verbatim>\<open>level\<close> or \<^verbatim>\<open>msg\<close>, before the caller's hook is
  asked. For a handler built by \<^verbatim>\<open>NewHandler\<close> and derived from it, the mapping that
  \<^verbatim>\<open>computeAttrs\<close> returns has none of the three keys, provided that the caller's hook
  never answers with one of these keys and that no group of such a name stands at the
  top level (groups do not go through the hook).
\<close>

theorem wellknown_keys_suppressed:
  assumes ok: "hook_ok (Handler_r (fst (NewHandler opts w0)))"
    and scopes: "scopes_ok ops (Attrs r)"
    and run: "computeAttrs (derive (fst (NewHandler opts w0)) ops) r w = Some (Inr (Some m), w')"
  shows "(TimeKey \<notin> fst ` set m \<and> LevelKey \<notin> fst ` set m \<and> MessageKey \<notin> fst ` set m)
    \<and> suppressDefaults next groups (Attr TimeKey v) = Attr_zero
    \<and> suppressDefaults next groups (Attr LevelKey v) = Attr_zero
    \<and> suppressDefaults next groups (Attr MessageKey v) = Attr_zero"
proof -
  let ?base = "fst (NewHandler opts w0)"
  let ?h = "derive ?base ops"
  obtain jh where jh: "Handler_h ?base = json_delegate jh" and w: "jh_w jh = Handler_b ?base"
    and rep: "ReplaceAttr (jh_opts jh) = Some (suppressDefaults (Handler_r ?base))"
    and sc: "jh_scopes jh = []"
    by (simp add: NewHandler_json)
  let ?jh = "jh\<lparr>jh_scopes := jh_scopes jh @ filter effective ops\<rparr>"
  note d = derive_json [OF jh, of ops]
  have hh: "Handler_h ?h = json_delegate ?jh" and hb: "Handler_b ?h = jh_w ?jh"
    by (simp_all add: d w)
  from run [unfolded computeAttrs_cases] obtain bs where
    dh: "d_Handle (Handler_h ?h) r (bufs w) = Some (None, bs)"
    and um: "Unmarshal (bs (Handler_b ?h)) = Inr (Some m)"
    by auto
  from dh have "jh_Handle ?jh r (bufs w) = Some (None, bs)" by (simp add: hh)
  from jh_Handle_keys [OF _ ok _ this] rep sc scopes_ok_filter [OF scopes]
  obtain ms where bs: "bs = (bufs w)(jh_w ?jh := bufs w (jh_w ?jh) @ [JObj ms])"
    and keys: "\<forall>k\<in>fst ` set ms. \<not> is_default_key k" by auto
  from um bs hb have "Unmarshal (bufs w (jh_w ?jh) @ [JObj ms]) = Inr (Some m)" by simp
  from Unmarshal_keys [OF this] have "fst ` set m = fst ` set ms" by auto
  with keys have "\<forall>k\<in>fst ` set m. \<not> is_default_key k" by simp
  then have "TimeKey \<notin> fst ` set m \<and> LevelKey \<notin> fst ` set m \<and> MessageKey \<notin> fst ` set m"
    by (auto simp: is_default_key_def)
  then show ?thesis by (simp add: suppressDefaults_def)
qed

theorem wellknown_keys_suppressed_witness:
  "hook_ok (Handler_r (fst (NewHandler
       (Some (HandlerOptions_zero\<lparr>ReplaceAttr := Some (drop_keys [''password''])\<rparr>)) world_init)))
   \<and> scopes_ok [] (Attrs (sample_record\<lparr>Attrs :=
         [Attr ''code'' (VInt 500), Attr ''msg'' (VString ''again''), Attr ''password'' (VString ''x'')]\<rparr>))
   \<and> map_option fst (computeAttrs
        (derive (fst (NewHandler
           (Some (HandlerOptions_zero\<lparr>ReplaceAttr := Some (drop_keys [''password''])\<rparr>)) world_init)) [])
        (sample_record\<lparr>Attrs :=
           [Attr ''code'' (VInt 500), Attr ''msg'' (VString ''again''), Attr ''password'' (VString ''x'')]\<rparr>)
        (snd (NewHandler
           (Some (HandlerOptions_zero\<lparr>ReplaceAttr := Some (drop_keys [''password''])\<rparr>)) world_init)))
      = Some (Inr (Some [(''code'', JNum 500)]))
   \<and> TimeKey \<notin> fst ` set [(''code'', JNum 500)] \<and> LevelKey \<notin> fst ` set [(''code'', JNum 500)]
   \<and> MessageKey \<notin> fst ` set [(''code'', JNum 500)]"
proof -
  let ?opts = "Some (HandlerOptions_zero\<lparr>ReplaceAttr := Some (drop_keys [''password''])\<rparr>)"
  let ?r = "sample_record\<lparr>Attrs :=
      [Attr ''code'' (VInt 500), Attr ''msg'' (VString ''again''), Attr ''password'' (VString ''x'')]\<rparr>"
  have "hook_ok (Some (drop_keys [''password'']))"
    by (auto simp: hook_ok_def drop_keys_def Attr_zero_def is_default_key_def top_ok_not_group
        TimeKey_def LevelKey_def MessageKey_def)
  then have 1: "hook_ok (Handler_r (fst (NewHandler ?opts world_init)))"
    by (simp add: NewHandler_def HandlerOptions_zero_def Let_def)
  have 2: "scopes_ok [] (Attrs ?r)" by simp
  obtain w' where 3: "computeAttrs (derive (fst (NewHandler ?opts world_init)) []) ?r
        (snd (NewHandler ?opts world_init)) = Some (Inr (Some [(''code'', JNum 500)]), w')"
    by (simp add: run_simps sample_simps)
  from wellknown_keys_suppressed [OF 1 2 3] 1 2 3 show ?thesis by simp
qed

text \<open>
  Claim C2 as stated fails: a group attribute named \<^verbatim>\<open>msg\<close> does not go through the hook
  and is decoded under the key \<^verbatim>\<open>msg\<close>; and the wrapped hook tests the key before the
  caller's hook, so an attribute that the caller's hook renames to \<^verbatim>\<open>level\<close> is decoded
  under the key \<^verbatim>\<open>level\<close>.
\<close>

theorem group_named_msg_counterexample:
  "map_option fst (computeAttrs (fst (NewHandler None world_init))
      (sample_record\<lparr>Attrs := [Attr ''msg'' (VGroup [Attr ''a'' (VInt 1)])]\<rparr>)
      (snd (NewHandler None world_init)))
     = Some (Inr (Some [(''msg'', JObj [(''a'', JNum 1)])]))
   \<and> map_option fst (computeAttrs
      (fst (NewHandler (Some (HandlerOptions_zero\<lparr>ReplaceAttr := Some (rename_key ''user'' ''level'')\<rparr>)) world_init))
      (sample_record\<lparr>Attrs := [Attr ''user'' (VString ''ann'')]\<rparr>)
      (snd (NewHandler (Some (HandlerOptions_zero\<lparr>ReplaceAttr := Some (rename_key ''user'' ''level'')\<rparr>)) world_init)))
     = Some (Inr (Some [(''level'', JStr ''ann'')]))"
  by (simp add: run_simps sample_simps rename_key_def)

subsection \<open>The buffer and the mutex\<close>

text \<open>
  A JSON handler writes to its own buffer only; the invariant holds at the start and
  every step keeps it.
\<close>

lemma jh_Handle_writes:
  "jh_Handle jh r bs = Some (e, bs') \<Longrightarrow> a \<noteq> jh_w jh \<Longrightarrow> bs' a = bs a"
  by (auto simp: jh_Handle_def Let_def bind_eq_Some_conv)

lemma valid_Handle_writes:
  assumes "valid_handler w h" and "d_Handle (Handler_h h) r bs = Some (e, bs')"
    and "a \<noteq> Handler_b h"
  shows "bs' a = bs a"
proof -
  from assms(1) obtain jh where "Handler_h h = json_delegate jh" "jh_w jh = Handler_b h"
    by (auto simp: valid_handler_def)
  with assms(2,3) show ?thesis using jh_Handle_writes [of jh r bs e bs' a] by simp
qed

lemma valid_handler_NewHandler:
  "valid_handler w h \<Longrightarrow> valid_handler (snd (NewHandler opts w)) h"
  by (simp add: valid_handler_def NewHandler_def Let_def)

lemma valid_handler_frame:
  "valid_handler (w\<lparr>bufs := bs\<rparr>) h = valid_handler w h"
  "valid_handler (w\<lparr>held := hs\<rparr>) h = valid_handler w h"
  by (simp_all add: valid_handler_def)

lemma cs_mutex_handler:
  "cs_mutex p = Some m \<Longrightarrow> \<exists>h. pc_handler p = Some h \<and> Handler_m h = m"
  by (cases p) auto

lemma invariantI:
  assumes "\<And>t m. cs_mutex (pcs t) = Some m \<Longrightarrow> held w m"
    and "\<And>t t' m. cs_mutex (pcs t) = Some m \<Longrightarrow> cs_mutex (pcs t') = Some m \<Longrightarrow> t = t'"
    and "\<And>b. \<not> held w (Suc b) \<Longrightarrow> bufs w b = []"
    and "\<And>t h res. pcs t = AtUnlock h res \<Longrightarrow> bufs w (Handler_b h) = []"
    and "\<And>t h. pc_handler (pcs t) = Some h \<Longrightarrow> valid_handler w h"
  shows "invariant (pcs, w)"
  using assms unfolding invariant_def by (simp (no_asm_simp)) blast

lemma invariantD:
  assumes "invariant (pcs, w)"
  shows "cs_mutex (pcs t) = Some m \<Longrightarrow> held w m"
    and "cs_mutex (pcs t) = Some m \<Longrightarrow> cs_mutex (pcs t') = Some m \<Longrightarrow> t = t'"
    and "\<not> held w (Suc b) \<Longrightarrow> bufs w b = []"
    and "pcs t = AtUnlock h res \<Longrightarrow> bufs w (Handler_b h) = []"
    and "pc_handler (pcs t) = Some h \<Longrightarrow> valid_handler w h"
  using assms unfolding invariant_def by (simp (no_asm_use), blast)+

lemma invariant_init: "invariant (\<lambda>t. Idle, world_init)"
  by (simp add: invariant_def world_init_def)

lemma invariant_step:
  assumes inv: "invariant s" and st: "step s s'"
  shows "invariant s'"
  using st
proof (cases rule: step.cases)
  case (new pcs w opts)
  note I = invariantD [OF inv [unfolded new(1)]]
  have w': "snd (NewHandler opts w) = w\<lparr>bufs := (bufs w)(next_addr w := []),
      held := (held w)(Suc (next_addr w) := False), next_addr := Suc (Suc (next_addr w))\<rparr>"
    by (simp add: NewHandler_def Let_def)
  have fresh: "m < next_addr w" if "cs_mutex (pcs t) = Some m" for t m
    using cs_mutex_handler [OF that] I(5) by (auto simp: valid_handler_def)
  show ?thesis unfolding new(2)
  proof (rule invariantI)
    fix t m assume "cs_mutex (pcs t) = Some m"
    with I(1) fresh show "held (snd (NewHandler opts w)) m" by (fastforce simp: w')
  next
    fix t t' m assume "cs_mutex (pcs t) = Some m" "cs_mutex (pcs t') = Some m"
    then show "t = t'" by (rule I(2))
  next
    fix b assume "\<not> held (snd (NewHandler opts w)) (Suc b)"
    then show "bufs (snd (NewHandler opts w)) b = []" using I(3) by (auto simp: w' split: if_splits)
  next
    fix t h res assume "pcs t = AtUnlock h res"
    then show "bufs (snd (NewHandler opts w)) (Handler_b h) = []" using I(4) by (auto simp: w')
  next
    fix t h assume "pc_handler (pcs t) = Some h"
    then show "valid_handler (snd (NewHandler opts w)) h"
      using I(5) by (auto intro: valid_handler_NewHandler)
  qed
next
  case (call pcs t w h r)
  note I = invariantD [OF inv [unfolded call(1)]]
  show ?thesis unfolding call(2)
  proof (rule invariantI)
    fix u m assume "cs_mutex ((pcs(t := AtLock h r)) u) = Some m"
    then show "held w m" using I(1) by (auto split: if_splits)
  next
    fix u u' m assume "cs_mutex ((pcs(t := AtLock h r)) u) = Some m"
      "cs_mutex ((pcs(t := AtLock h r)) u') = Some m"
    then show "u = u'" using I(2) by (auto split: if_splits)
  next
    fix b assume "\<not> held w (Suc b)" then show "bufs w b = []" by (rule I(3))
  next
    fix u h' res assume "(pcs(t := AtLock h r)) u = AtUnlock h' res"
    then show "bufs w (Handler_b h') = []" using I(4) by (auto split: if_splits)
  next
    fix u h' assume "pc_handler ((pcs(t := AtLock h r)) u) = Some h'"
    then show "valid_handler w h'" using I(5) call(4) by (auto split: if_splits)
  qed
next
  case (lock pcs t h r w)
  note I = invariantD [OF inv [unfolded lock(1)]]
  let ?p = "AtHandle h r"
  let ?w = "w\<lparr>held := (held w)(Handler_m h := True)\<rparr>"
  have free: "cs_mutex (pcs u) \<noteq> Some (Handler_m h)" for u
    using I(1) [of u "Handler_m h"] lock(4) by blast
  have vh: "valid_handler w h" using I(5) [of t h] lock(3) by simp
  have other: "cs_mutex ((pcs(t := ?p)) u) = cs_mutex (pcs u)" if "u \<noteq> t" for u
    using that by simp
  have mine_cs: "cs_mutex ((pcs(t := ?p)) t) = Some (Handler_m h)" by simp
  show ?thesis unfolding lock(2)
  proof (rule invariantI)
    fix u m assume a: "cs_mutex ((pcs(t := ?p)) u) = Some m"
    show "held ?w m"
    proof (cases "u = t")
      case True
      with a mine_cs show ?thesis by simp
    next
      case False
      with a other have "cs_mutex (pcs u) = Some m" by simp
      then have "held w m" by (rule I(1))
      then show ?thesis by simp
    qed
  next
    fix u u' m assume a: "cs_mutex ((pcs(t := ?p)) u) = Some m"
      and a': "cs_mutex ((pcs(t := ?p)) u') = Some m"
    show "u = u'"
    proof (cases "u = t")
      case True
      with a mine_cs have m: "m = Handler_m h" by simp
      show ?thesis
      proof (cases "u' = t")
        case True
        with \<open>u = t\<close> show ?thesis by simp
      next
        case False
        with a' other m free [of u'] show ?thesis by simp
      qed
    next
      case False
      with a other have u: "cs_mutex (pcs u) = Some m" by simp
      show ?thesis
      proof (cases "u' = t")
        case True
        with a' mine_cs have "m = Handler_m h" by simp
        with u free [of u] show ?thesis by simp
      next
        case False
        with a' other have "cs_mutex (pcs u') = Some m" by simp
        with u show ?thesis by (rule I(2))
      qed
    qed
  next
    fix b assume "\<not> held ?w (Suc b)"
    then have "\<not> held w (Suc b)" by (simp split: if_splits)
    then show "bufs ?w b = []" using I(3) by simp
  next
    fix u h' res assume "(pcs(t := ?p)) u = AtUnlock h' res"
    then have "pcs u = AtUnlock h' res" by (simp split: if_splits)
    then show "bufs ?w (Handler_b h') = []" using I(4) by simp
  next
    fix u h' assume a: "pc_handler ((pcs(t := ?p)) u) = Some h'"
    have "valid_handler w h'"
    proof (cases "u = t")
      case True
      with a vh show ?thesis by simp
    next
      case False
      with a I(5) [of u h'] show ?thesis by simp
    qed
    then show "valid_handler ?w h'" by (simp add: valid_handler_frame)
  qed
next
  case (handle_err pcs t h r w err bs)
  note I = invariantD [OF inv [unfolded handle_err(1)]]
  let ?p = "AtReset h (Inl (Wrap ''error when calling inner handler's Handle'' err))"
  let ?w = "w\<lparr>bufs := bs\<rparr>"
  have vh: "valid_handler w h" using I(5) [of t h] handle_err(3) by simp
  have mine: "held w (Handler_m h)" using I(1) [of t] handle_err(3) by simp
  have same: "cs_mutex ((pcs(t := ?p)) u) = cs_mutex (pcs u)" for u
    using handle_err(3) by simp
  have frame: "bs a = bufs w a" if "a \<noteq> Handler_b h" for a
    using valid_Handle_writes [OF vh handle_err(4) that] .
  have mb: "Handler_m h = Suc (Handler_b h)" using vh by (simp add: valid_handler_def)
  show ?thesis unfolding handle_err(2)
  proof (rule invariantI)
    fix u m assume "cs_mutex ((pcs(t := ?p)) u) = Some m"
    then have "cs_mutex (pcs u) = Some m" by (simp only: same)
    then show "held ?w m" using I(1) by simp
  next
    fix u u' m assume "cs_mutex ((pcs(t := ?p)) u) = Some m" "cs_mutex ((pcs(t := ?p)) u') = Some m"
    then have "cs_mutex (pcs u) = Some m" "cs_mutex (pcs u') = Some m" by (simp_all only: same)
    then show "u = u'" by (rule I(2))
  next
    fix b assume "\<not> held ?w (Suc b)"
    then show "bufs ?w b = []" using I(3) [of b] frame [of b] mine mb by (cases "b = Handler_b h") auto
  next
    fix u h' res assume u: "(pcs(t := ?p)) u = AtUnlock h' res"
    then have ut: "u \<noteq> t" and pu: "pcs u = AtUnlock h' res" by (auto split: if_splits)
    have vh': "valid_handler w h'" using I(5) [of u h'] pu by simp
    have "Handler_b h' \<noteq> Handler_b h"
    proof
      assume "Handler_b h' = Handler_b h"
      with vh' mb have "Handler_m h' = Handler_m h" by (simp add: valid_handler_def)
      with I(2) [of u "Handler_m h" t] pu handle_err(3) ut show False by simp
    qed
    with frame I(4) [OF pu] show "bufs ?w (Handler_b h') = []" by simp
  next
    fix u h' assume "pc_handler ((pcs(t := ?p)) u) = Some h'"
    then show "valid_handler ?w h'" using I(5) vh by (auto simp: valid_handler_frame split: if_splits)
  qed
next
  case (handle_ok pcs t h r w bs)
  note I = invariantD [OF inv [unfolded handle_ok(1)]]
  let ?p = "AtUnmarshal h"
  let ?w = "w\<lparr>bufs := bs\<rparr>"
  have vh: "valid_handler w h" using I(5) [of t h] handle_ok(3) by simp
  have mine: "held w (Handler_m h)" using I(1) [of t] handle_ok(3) by simp
  have same: "cs_mutex ((pcs(t := ?p)) u) = cs_mutex (pcs u)" for u
    using handle_ok(3) by simp
  have frame: "bs a = bufs w a" if "a \<noteq> Handler_b h" for a
    using valid_Handle_writes [OF vh handle_ok(4) that] .
  have mb: "Handler_m h = Suc (Handler_b h)" using vh by (simp add: valid_handler_def)
  show ?thesis unfolding handle_ok(2)
  proof (rule invariantI)
    fix u m assume "cs_mutex ((pcs(t := ?p)) u) = Some m"
    then have "cs_mutex (pcs u) = Some m" by (simp only: same)
    then show "held ?w m" using I(1) by simp
  next
    fix u u' m assume "cs_mutex ((pcs(t := ?p)) u) = Some m" "cs_mutex ((pcs(t := ?p)) u') = Some m"
    then have "cs_mutex (pcs u) = Some m" "cs_mutex (pcs u') = Some m" by (simp_all only: same)
    then show "u = u'" by (rule I(2))
  next
    fix b assume "\<not> held ?w (Suc b)"
    then show "bufs ?w b = []" using I(3) [of b] frame [of b] mine mb by (cases "b = Handler_b h") auto
  next
    fix u h' res assume u: "(pcs(t := ?p)) u = AtUnlock h' res"
    then have ut: "u \<noteq> t" and pu: "pcs u = AtUnlock h' res" by (auto split: if_splits)
    have vh': "valid_handler w h'" using I(5) [of u h'] pu by simp
    have "Handler_b h' \<noteq> Handler_b h"
    proof
      assume "Handler_b h' = Handler_b h"
      with vh' mb have "Handler_m h' = Handler_m h" by (simp add: valid_handler_def)
      with I(2) [of u "Handler_m h" t] pu handle_ok(3) ut show False by simp
    qed
    with frame I(4) [OF pu] show "bufs ?w (Handler_b h') = []" by simp
  next
    fix u h' assume "pc_handler ((pcs(t := ?p)) u) = Some h'"
    then show "valid_handler ?w h'" using I(5) vh by (auto simp: valid_handler_frame split: if_splits)
  qed
next
  case (unmarshal pcs t h w)
  note I = invariantD [OF inv [unfolded unmarshal(1)]]
  let ?p = "AtReset h
              (case Unmarshal (bufs w (Handler_b h)) of
                 Inl err \<Rightarrow> Inl (Wrap ''error when unmarshaling inner handler's Handle result'' err)
               | Inr attrs \<Rightarrow> Inr attrs)"
  have vh: "valid_handler w h" using I(5) [of t h] unmarshal(3) by simp
  have mine: "held w (Handler_m h)" using I(1) [of t] unmarshal(3) by simp
  have same: "cs_mutex ((pcs(t := ?p)) u) = cs_mutex (pcs u)" for u
    using unmarshal(3) by simp
  show ?thesis unfolding unmarshal(2)
  proof (rule invariantI)
    fix u m assume "cs_mutex ((pcs(t := ?p)) u) = Some m"
    then have "cs_mutex (pcs u) = Some m" by (simp only: same)
    then show "held w m" by (rule I(1))
  next
    fix u u' m assume "cs_mutex ((pcs(t := ?p)) u) = Some m" "cs_mutex ((pcs(t := ?p)) u') = Some m"
    then have "cs_mutex (pcs u) = Some m" "cs_mutex (pcs u') = Some m" by (simp_all only: same)
    then show "u = u'" by (rule I(2))
  next
    fix b assume "\<not> held w (Suc b)" then show "bufs w b = []" by (rule I(3))
  next
    fix u h' res assume "(pcs(t := ?p)) u = AtUnlock h' res"
    then show "bufs w (Handler_b h') = []" using I(4) by (auto split: if_splits)
  next
    fix u h' assume "pc_handler ((pcs(t := ?p)) u) = Some h'"
    then show "valid_handler w h'" using I(5) vh by (auto split: if_splits)
  qed
next
  case (reset pcs t h res w)
  note I = invariantD [OF inv [unfolded reset(1)]]
  let ?p = "AtUnlock h res"
  let ?w = "w\<lparr>bufs := (bufs w)(Handler_b h := [])\<rparr>"
  have vh: "valid_handler w h" using I(5) [of t h] reset(3) by simp
  have mine: "held w (Handler_m h)" using I(1) [of t] reset(3) by simp
  have same: "cs_mutex ((pcs(t := ?p)) u) = cs_mutex (pcs u)" for u
    using reset(3) by simp
  show ?thesis unfolding reset(2)
  proof (rule invariantI)
    fix u m assume "cs_mutex ((pcs(t := ?p)) u) = Some m"
    then have "cs_mutex (pcs u) = Some m" by (simp only: same)
    then show "held ?w m" using I(1) by simp
  next
    fix u u' m assume "cs_mutex ((pcs(t := ?p)) u) = Some m" "cs_mutex ((pcs(t := ?p)) u') = Some m"
    then have "cs_mutex (pcs u) = Some m" "cs_mutex (pcs u') = Some m" by (simp_all only: same)
    then show "u = u'" by (rule I(2))
  next
    fix b assume "\<not> held ?w (Suc b)" then show "bufs ?w b = []" using I(3) by auto
  next
    fix u h' res' assume "(pcs(t := ?p)) u = AtUnlock h' res'"
    then show "bufs ?w (Handler_b h') = []" using I(4) by (auto split: if_splits)
  next
    fix u h' assume "pc_handler ((pcs(t := ?p)) u) = Some h'"
    then show "valid_handler ?w h'" using I(5) vh by (auto simp: valid_handler_frame split: if_splits)
  qed
next
  case (unlock pcs t h res w)
  note I = invariantD [OF inv [unfolded unlock(1)]]
  let ?p = "Returned res"
  let ?w = "w\<lparr>held := (held w)(Handler_m h := False)\<rparr>"
  have vh: "valid_handler w h" using I(5) [of t h] unlock(3) by simp
  have mb: "Handler_m h = Suc (Handler_b h)" using vh by (simp add: valid_handler_def)
  have empty: "bufs w (Handler_b h) = []" using I(4) [OF unlock(3)] .
  have alone: "u = t" if "cs_mutex (pcs u) = Some (Handler_m h)" for u
    using I(2) [OF that, of t] unlock(3) by simp
  show ?thesis unfolding unlock(2)
  proof (rule invariantI)
    fix u m assume "cs_mutex ((pcs(t := ?p)) u) = Some m"
    then show "held ?w m" using I(1) alone by (auto split: if_splits)
  next
    fix u u' m assume "cs_mutex ((pcs(t := ?p)) u) = Some m" "cs_mutex ((pcs(t := ?p)) u') = Some m"
    then show "u = u'" using I(2) by (auto split: if_splits)
  next
    fix b assume "\<not> held ?w (Suc b)"
    then show "bufs ?w b = []" using I(3) [of b] empty mb by (cases "b = Handler_b h") auto
  next
    fix u h' res' assume "(pcs(t := ?p)) u = AtUnlock h' res'"
    then show "bufs ?w (Handler_b h') = []" using I(4) by (auto split: if_splits)
  next
    fix u h' assume "pc_handler ((pcs(t := ?p)) u) = Some h'"
    then show "valid_handler ?w h'" using I(5) by (auto simp: valid_handler_frame split: if_splits)
  qed
next
  case (return pcs t res w)
  note I = invariantD [OF inv [unfolded return(1)]]
  show ?thesis unfolding return(2)
  proof (rule invariantI)
    fix u m assume "cs_mutex ((pcs(t := Idle)) u) = Some m"
    then show "held w m" using I(1) by (auto split: if_splits)
  next
    fix u u' m assume "cs_mutex ((pcs(t := Idle)) u) = Some m" "cs_mutex ((pcs(t := Idle)) u') = Some m"
    then show "u = u'" using I(2) by (auto split: if_splits)
  next
    fix b assume "\<not> held w (Suc b)" then show "bufs w b = []" by (rule I(3))
  next
    fix u h' res' assume "(pcs(t := Idle)) u = AtUnlock h' res'"
    then show "bufs w (Handler_b h') = []" using I(4) by (auto split: if_splits)
  next
    fix u h' assume "pc_handler ((pcs(t := Idle)) u) = Some h'"
    then show "valid_handler w h'" using I(5) by (auto split: if_splits)
  qed
qed

lemma reachable_invariant: "reachable s \<Longrightarrow> invariant s"
  by (induction rule: reachable.induct) (auto intro: invariant_init invariant_step)

lemma valid_handler_new: "valid_handler (snd (NewHandler opts w)) (fst (NewHandler opts w))"
proof -
  obtain jh where "Handler_h (fst (NewHandler opts w)) = json_delegate jh"
    "jh_w jh = Handler_b (fst (NewHandler opts w))"
    by (simp add: NewHandler_json)
  then show ?thesis
    by (auto simp: valid_handler_def) (simp_all add: NewHandler_def Let_def)
qed

lemma valid_handler_derive: "valid_handler w h \<Longrightarrow> valid_handler w (derive h ops)"
  using derive_json [of h _ ops] by (auto simp: valid_handler_def)

lemma reachable_steps: "step\<^sup>*\<^sup>* s s' \<Longrightarrow> reachable s \<Longrightarrow> reachable s'"
  by (induction rule: rtranclp_induct) (auto intro: reachable.step)

lemma computeAttrs_exit:
  "computeAttrs h r w = Some (res, w') \<Longrightarrow> bufs w' (Handler_b h) = [] \<and> \<not> held w' (Handler_m h)"
  unfolding computeAttrs_cases by (auto simp: deferred_def Let_def)

lemma computeAttrs_entry: "computeAttrs h r w = Some (res, w') \<Longrightarrow> \<not> held w (Handler_m h)"
  unfolding computeAttrs_cases by simp

lemma steps_computeAttrs:
  assumes run: "computeAttrs h r w = Some (res, w')" and at: "pcs t = AtLock h r"
  shows "step\<^sup>*\<^sup>* (pcs, w) (pcs(t := Returned res), w')"
proof -
  let ?w1 = "w\<lparr>held := (held w)(Handler_m h := True)\<rparr>"
  from run have free: "\<not> held w (Handler_m h)" by (rule computeAttrs_entry)
  have s1: "step (pcs, w) (pcs(t := AtHandle h r), ?w1)"
    using at free by (rule step.lock)
  from run [unfolded computeAttrs_cases] obtain bs where
    w': "w' = deferred h (w\<lparr>held := (held w)(Handler_m h := True), bufs := bs\<rparr>)"
    and cases: "(\<exists>err. d_Handle (Handler_h h) r (bufs w) = Some (Some err, bs)
               \<and> res = Inl (Wrap ''error when calling inner handler's Handle'' err))
         \<or> (d_Handle (Handler_h h) r (bufs w) = Some (None, bs)
              \<and> (\<exists>err. Unmarshal (bs (Handler_b h)) = Inl err
                    \<and> res = Inl (Wrap ''error when unmarshaling inner handler's Handle result'' err)))
         \<or> (d_Handle (Handler_h h) r (bufs w) = Some (None, bs)
              \<and> (\<exists>attrs. Unmarshal (bs (Handler_b h)) = Inr attrs \<and> res = Inr attrs))"
    by blast
  let ?w2 = "?w1\<lparr>bufs := bs\<rparr>"
  let ?p1 = "pcs(t := AtHandle h r)"
  have s2: "step\<^sup>*\<^sup>* (?p1, ?w1) (pcs(t := AtReset h res), ?w2)"
  proof -
    from cases consider
      (err) err where "d_Handle (Handler_h h) r (bufs w) = Some (Some err, bs)"
        "res = Inl (Wrap ''error when calling inner handler's Handle'' err)"
      | (ok) "d_Handle (Handler_h h) r (bufs w) = Some (None, bs)"
        "res = (case Unmarshal (bs (Handler_b h)) of
                 Inl err \<Rightarrow> Inl (Wrap ''error when unmarshaling inner handler's Handle result'' err)
               | Inr attrs \<Rightarrow> Inr attrs)"
      by auto
    then show ?thesis
    proof cases
      case err
      have "step (?p1, ?w1) (?p1(t := AtReset h (Inl (Wrap ''error when calling inner handler's Handle'' err))), ?w2)"
        by (rule step.handle_err [where r = r]) (simp_all add: err(1))
      with err(2) show ?thesis by simp
    next
      case ok
      have a: "step (?p1, ?w1) (?p1(t := AtUnmarshal h), ?w2)"
        by (rule step.handle_ok [where r = r]) (simp_all add: ok(1))
      have "step (?p1(t := AtUnmarshal h), ?w2)
          ((?p1(t := AtUnmarshal h))(t := AtReset h
              (case Unmarshal (bufs ?w2 (Handler_b h)) of
                 Inl err \<Rightarrow> Inl (Wrap ''error when unmarshaling inner handler's Handle result'' err)
               | Inr attrs \<Rightarrow> Inr attrs)), ?w2)"
        by (rule step.unmarshal) simp
      with ok(2) have b: "step (?p1(t := AtUnmarshal h), ?w2) (pcs(t := AtReset h res), ?w2)"
        by simp
      from a b show ?thesis by (rule converse_rtranclp_into_rtranclp [OF _ r_into_rtranclp])
    qed
  qed
  let ?w3 = "?w2\<lparr>bufs := (bufs ?w2)(Handler_b h := [])\<rparr>"
  have "step (pcs(t := AtReset h res), ?w2) ((pcs(t := AtReset h res))(t := AtUnlock h res), ?w3)"
    by (rule step.reset) simp
  then have s3: "step (pcs(t := AtReset h res), ?w2) (pcs(t := AtUnlock h res), ?w3)" by simp
  have "step (pcs(t := AtUnlock h res), ?w3)
      ((pcs(t := AtUnlock h res))(t := Returned res), ?w3\<lparr>held := (held ?w3)(Handler_m h := False)\<rparr>)"
    by (rule step.unlock) simp
  moreover have "?w3\<lparr>held := (held ?w3)(Handler_m h := False)\<rparr> = w'"
    by (simp add: w' deferred_def Let_def)
  ultimately have s4: "step (pcs(t := AtUnlock h res), ?w3) (pcs(t := Returned res), w')" by simp
  from s1 s2 s3 s4 show ?thesis by (meson rtranclp.rtrancl_into_rtrancl converse_rtranclp_into_rtranclp)
qed

text \<open>
  Claim C1. In every state a program reaches, with any number of threads inside
  \<^verbatim>\<open>computeAttrs\<close> (and so inside \<^verbatim>\<open>Handle\<close>), the buffer of a handler is empty whenever its
  mutex is not held: it is empty before a call takes the lock. A call that returns,
  by an error path or with the mapping, leaves the buffer empty and the mutex free: the
  deferred function resets the buffer and then unlocks. The run of a call is a run of the
  steps of one thread.
\<close>

theorem buffer_empty_unless_locked:
  assumes "reachable (pcs, w)" and "valid_handler w h"
  shows "(\<not> held w (Handler_m h) \<longrightarrow> bufs w (Handler_b h) = [])
     \<and> (computeAttrs h r w = Some (res, w') \<longrightarrow>
          bufs w (Handler_b h) = [] \<and> bufs w' (Handler_b h) = [] \<and> \<not> held w' (Handler_m h))
     \<and> (pcs t = AtLock h r \<and> computeAttrs h r w = Some (res, w') \<longrightarrow>
          reachable (pcs(t := Returned res), w'))"
proof -
  from assms(1) have inv: "invariant (pcs, w)" by (rule reachable_invariant)
  from assms(2) have mb: "Handler_m h = Suc (Handler_b h)" by (simp add: valid_handler_def)
  have 1: "bufs w (Handler_b h) = []" if "\<not> held w (Handler_m h)"
    using invariantD(3) [OF inv, of "Handler_b h"] that mb by simp
  have 2: "bufs w (Handler_b h) = [] \<and> bufs w' (Handler_b h) = [] \<and> \<not> held w' (Handler_m h)"
    if "computeAttrs h r w = Some (res, w')"
    using 1 computeAttrs_entry [OF that] computeAttrs_exit [OF that] by simp
  have 3: "reachable (pcs(t := Returned res), w')"
    if "pcs t = AtLock h r" "computeAttrs h r w = Some (res, w')"
    using reachable_steps [OF steps_computeAttrs [of h r w res w' pcs t, OF that(2,1)] assms(1)] .
  from 1 2 3 show ?thesis by blast
qed

theorem buffer_empty_unless_locked_witness:
  "reachable ((\<lambda>t. Idle)(0 := AtLock (fst (NewHandler None world_init)) sample_record),
              snd (NewHandler None world_init))
   \<and> valid_handler (snd (NewHandler None world_init)) (fst (NewHandler None world_init))
   \<and> \<not> held (snd (NewHandler None world_init)) (Handler_m (fst (NewHandler None world_init)))
   \<and> bufs (snd (NewHandler None world_init)) (Handler_b (fst (NewHandler None world_init))) = []
   \<and> map_option fst (computeAttrs (fst (NewHandler None world_init)) sample_record
         (snd (NewHandler None world_init))) = Some (Inr (Some []))
   \<and> (\<exists>w'. reachable ((\<lambda>t. Idle)(0 := Returned (Inr (Some []))), w')
          \<and> bufs w' (Handler_b (fst (NewHandler None world_init))) = []
          \<and> \<not> held w' (Handler_m (fst (NewHandler None world_init))))"
proof -
  let ?H = "fst (NewHandler None world_init)"
  let ?W = "snd (NewHandler None world_init)"
  let ?pcs = "(\<lambda>t. Idle)(0 := AtLock ?H sample_record)"
  have v: "valid_handler ?W ?H" by (rule valid_handler_new)
  have "reachable (\<lambda>t. Idle, ?W)"
    by (rule reachable.step [OF reachable.init step.new])
  from reachable.step [OF this step.call [where t = 0 and h = ?H and r = sample_record, OF _ v]]
  have r: "reachable (?pcs, ?W)" by simp
  have free: "\<not> held ?W (Handler_m ?H)" by (simp add: NewHandler_def Let_def)
  obtain w' where run: "computeAttrs ?H sample_record ?W = Some (Inr (Some []), w')"
    by (simp add: run_simps sample_simps)
  from buffer_empty_unless_locked [OF r v, of sample_record "Inr (Some [])" w' 0] free run
  have "bufs ?W (Handler_b ?H) = []"
    and "bufs w' (Handler_b ?H) = []" and "\<not> held w' (Handler_m ?H)"
    and "reachable (?pcs(0 := Returned (Inr (Some []))), w')"
    by simp_all
  with r v free run show ?thesis by auto
qed

end
